theory Spec2Isabelle
  imports Main "HOL-Library.Word" "HOL-Library.Signed_Division"
begin

section \<open>The weight downloader of docker/presets/download\_script.go\<close>

text \<open>
  The program resolves a fixed list of URLs for a model version, then fetches every URL
  into the output directory, one goroutine per URL. Go strings are byte sequences and are
  modelled as \<^typ>\<open>string\<close>. \<^verbatim>\<open>log.Fatal\<close> logs its message and ends the process with
  \<^verbatim>\<open>os.Exit(1)\<close>: a function that may call it returns \<open>error + 'a\<close>, with the
  logged message on the left.
\<close>

subsection \<open>Errors\<close>

datatype error =
  LogFatal string \<comment> \<open>\<^verbatim>\<open>log.Fatal\<close>, \<^verbatim>\<open>log.Fatalf\<close>: the message logged before \<^verbatim>\<open>os.Exit(1)\<close>\<close>
| PanicIndexOutOfRange \<comment> \<open>the run-time panic of a slice index out of range\<close>

subsection \<open>Constants\<close>

definition PublicLink :: string where
  "PublicLink = ''public''"

definition PrivateLink :: string where
  "PrivateLink = ''private''"

subsection \<open>Formatting: the verbs of \<^verbatim>\<open>fmt.Sprintf\<close> the program uses\<close>

text \<open>
  \<^verbatim>\<open>%s\<close> of a string inserts it as it is, so those formats are written with \<open>@\<close>.
  \<^verbatim>\<open>%05d\<close> prints a decimal integer padded with zeros to width 5; the sign of a negative
  number comes first and counts towards the width.
\<close>

fun decimal :: "nat \<Rightarrow> string" where
  "decimal n =
     (if n < 10 then [''0123456789'' ! n]
      else decimal (n div 10) @ [''0123456789'' ! (n mod 10)])"

declare decimal.simps [simp del]

definition fmt_05d :: "int \<Rightarrow> string" where
  "fmt_05d i =
     (let ds = decimal (nat \<bar>i\<bar>);
          sign = (if i < 0 then ''-'' else '''')
      in sign @ replicate (5 - length sign - length ds) (CHR ''0'') @ ds)"

subsection \<open>URL resolution\<close>

definition falconCommonURLs :: "string \<Rightarrow> string list" where
  "falconCommonURLs modelVersion =
     [ ''https://huggingface.co/'' @ modelVersion @ ''/raw/main/config.json'',
       ''https://huggingface.co/'' @ modelVersion @ ''/raw/main/pytorch_model.bin.index.json'',
       ''https://huggingface.co/'' @ modelVersion @ ''/raw/main/tokenizer.json'',
       ''https://huggingface.co/'' @ modelVersion @ ''/raw/main/tokenizer_config.json'',
       ''https://huggingface.co/'' @ modelVersion @ ''/raw/main/special_tokens_map.json'',
       ''https://huggingface.co/'' @ modelVersion @ ''/raw/main/configuration_falcon.py'',
       ''https://huggingface.co/'' @ modelVersion @ ''/raw/main/generation_config.json'',
       ''https://huggingface.co/'' @ modelVersion @ ''/raw/main/modeling_falcon.py'' ]"

text \<open>
  The loop \<^verbatim>\<open>for i := 1; i <= count; i++\<close> of \<^verbatim>\<open>falconModelURLs\<close>, appending to
  the named result \<^verbatim>\<open>urls\<close>. The program calls it with the counts 2 and 9 only, far from
  the range of \<^verbatim>\<open>int\<close>, so the counter is an unbounded integer here.
\<close>

function falconModelURLs_loop :: "string \<Rightarrow> int \<Rightarrow> int \<Rightarrow> string list \<Rightarrow> string list" where
  "falconModelURLs_loop modelVersion count i urls =
     (if i \<le> count
      then falconModelURLs_loop modelVersion count (i + 1)
             (urls @ [''https://huggingface.co/'' @ modelVersion
                      @ ''/resolve/main/pytorch_model-'' @ fmt_05d i @ ''-of-'' @ fmt_05d count
                      @ ''.bin''])
      else urls)"
  by pat_completeness auto
termination
  by (relation "measure (\<lambda>(modelVersion, count, i, urls). nat (count + 1 - i))") auto

declare falconModelURLs_loop.simps [simp del]

definition falconModelURLs :: "string \<Rightarrow> int \<Rightarrow> string list" where
  "falconModelURLs modelVersion count = falconModelURLs_loop modelVersion count 1 []"

definition getPrivateURLsForModel :: "string \<Rightarrow> string \<Rightarrow> error + string list" where
  "getPrivateURLsForModel baseURL modelVersion =
     (if modelVersion = ''llama-2-7b'' \<or> modelVersion = ''llama-2-7b-chat'' then
        Inr [ baseURL @ modelVersion @ ''/consolidated.00.pth'',
              baseURL @ modelVersion @ ''/params.json'' ]
      else if modelVersion = ''llama-2-13b'' \<or> modelVersion = ''llama-2-13b-chat'' then
        Inr [ baseURL @ modelVersion @ ''/consolidated.00.pth'',
              baseURL @ modelVersion @ ''/consolidated.01.pth'',
              baseURL @ modelVersion @ ''/params.json'' ]
      else if modelVersion = ''llama-2-70b'' \<or> modelVersion = ''llama-2-70b-chat'' then
        Inr [ baseURL @ modelVersion @ ''/consolidated.00.pth'',
              baseURL @ modelVersion @ ''/consolidated.01.pth'',
              baseURL @ modelVersion @ ''/consolidated.03.pth'',
              baseURL @ modelVersion @ ''/consolidated.04.pth'',
              baseURL @ modelVersion @ ''/consolidated.05.pth'',
              baseURL @ modelVersion @ ''/consolidated.06.pth'',
              baseURL @ modelVersion @ ''/consolidated.07.pth'',
              baseURL @ modelVersion @ ''/params.json'' ]
      else Inl (LogFatal (''Invalid model version for private link: '' @ modelVersion)))"

definition getURLsForModel :: "string \<Rightarrow> string \<Rightarrow> string \<Rightarrow> error + string list" where
  "getURLsForModel linkType baseURL modelVersion =
     (if linkType = PublicLink then
        (if modelVersion = ''tiiuae/falcon-7b'' \<or> modelVersion = ''tiiuae/falcon-7b-instruct'' then
           Inr (falconModelURLs modelVersion 2 @ falconCommonURLs modelVersion)
         else if modelVersion = ''tiiuae/falcon-40b'' \<or> modelVersion = ''tiiuae/falcon-40b-instruct'' then
           Inr (falconModelURLs modelVersion 9 @ falconCommonURLs modelVersion)
         else Inl (LogFatal (''Invalid model version for public link: '' @ modelVersion)))
      else getPrivateURLsForModel baseURL modelVersion)"

subsection \<open>Paths: \<^verbatim>\<open>filepath.Base\<close>, \<^verbatim>\<open>filepath.Clean\<close> and \<^verbatim>\<open>filepath.Join\<close>\<close>

text \<open>
  The three functions belong to Go's standard library, not to the repository. They are
  modelled after the library's Unix implementation: the separator is \<open>/\<close>, there is no
  volume name, and \<^verbatim>\<open>FromSlash\<close> is the identity.
\<close>

definition isPathSeparator :: "char \<Rightarrow> bool" where
  "isPathSeparator c = (c = CHR ''/'')"

text \<open>
  \<^verbatim>\<open>Base\<close>: the empty path gives \<open>.\<close>; trailing separators are stripped; what follows
  the last separator is returned, or \<open>/\<close> when nothing is left.
\<close>

definition filepath_Base :: "string \<Rightarrow> string" where
  "filepath_Base path =
     (if path = [] then ''.''
      else
        let stripped = rev (dropWhile isPathSeparator (rev path));
            element = rev (takeWhile (\<lambda>c. \<not> isPathSeparator c) (rev stripped))
        in if element = [] then ''/'' else element)"

text \<open>
  \<^verbatim>\<open>Clean\<close> reads the path from left to right and writes to a buffer \<open>out\<close>;
  \<open>dotdot\<close> is the length of the prefix of \<open>out\<close> that a \<open>..\<close> element must not
  remove. \<open>backtrack\<close> is the inner loop that removes the last element written,
  together with the separator before it.
\<close>

fun backtrack_loop :: "string \<Rightarrow> nat \<Rightarrow> nat \<Rightarrow> nat" where
  "backtrack_loop out dotdot w =
     (if w > dotdot \<and> \<not> isPathSeparator (out ! w)
      then backtrack_loop out dotdot (w - 1) else w)"

declare backtrack_loop.simps [simp del]

definition backtrack :: "string \<Rightarrow> nat \<Rightarrow> string" where
  "backtrack out dotdot = take (backtrack_loop out dotdot (length out - 1)) out"

function clean_loop :: "bool \<Rightarrow> string \<Rightarrow> string \<Rightarrow> nat \<Rightarrow> string \<times> nat" where
  "clean_loop rooted [] out dotdot = (out, dotdot)"
| "clean_loop rooted (c # cs) out dotdot =
     (if isPathSeparator c then clean_loop rooted cs out dotdot
      else if c = CHR ''.'' \<and> (cs = [] \<or> isPathSeparator (hd cs)) then
        clean_loop rooted cs out dotdot
      else if c = CHR ''.'' \<and> hd cs = CHR ''.'' \<and> (tl cs = [] \<or> isPathSeparator (hd (tl cs))) then
        (if length out > dotdot then clean_loop rooted (tl cs) (backtrack out dotdot) dotdot
         else if \<not> rooted then
           (let out' = (if length out > 0 then out @ ''/'' else out) @ ''..''
            in clean_loop rooted (tl cs) out' (length out'))
         else clean_loop rooted (tl cs) out dotdot)
      else
        (let out' = (if rooted \<and> length out \<noteq> 1 \<or> \<not> rooted \<and> length out \<noteq> 0
                     then out @ ''/'' else out)
         in clean_loop rooted (dropWhile (\<lambda>c. \<not> isPathSeparator c) (c # cs))
              (out' @ takeWhile (\<lambda>c. \<not> isPathSeparator c) (c # cs)) dotdot))"
  by pat_completeness auto
termination
proof (relation "measure (\<lambda>(rooted, path, out, dotdot). length path)")
  fix rooted :: bool and c :: char and cs out out' :: string and dotdot :: nat
  have "length (dropWhile (\<lambda>c. \<not> isPathSeparator c) cs) \<le> length cs"
    by (rule length_dropWhile_le)
  then show "\<not> isPathSeparator c \<Longrightarrow>
      ((rooted, dropWhile (\<lambda>c. \<not> isPathSeparator c) (c # cs), out', dotdot),
       (rooted, c # cs, out, dotdot))
      \<in> measure (\<lambda>(rooted, path, out, dotdot). length path)"
    by simp
qed auto

declare clean_loop.simps [simp del]

definition filepath_Clean :: "string \<Rightarrow> string" where
  "filepath_Clean path =
     (if path = [] then ''.''
      else
        let rooted = isPathSeparator (hd path);
            out = fst (if rooted then clean_loop rooted (tl path) ''/'' 1
                       else clean_loop rooted path [] 0)
        in if length out = 0 then ''.'' else out)"

text \<open>
  \<^verbatim>\<open>Join\<close> of two elements: the elements from the first non-empty one on are joined
  with the separator and the result is cleaned; two empty elements give the empty path.
\<close>

definition filepath_Join :: "string \<Rightarrow> string \<Rightarrow> string" where
  "filepath_Join a b =
     (if a \<noteq> [] then filepath_Clean (a @ ''/'' @ b)
      else if b \<noteq> [] then filepath_Clean b
      else [])"

definition getFilenameFromURL :: "string \<Rightarrow> string" where
  "getFilenameFromURL url = filepath_Base url"

subsection \<open>The world outside the program\<close>

text \<open>
  What the operating system and the network answer is not decided by the program. It is
  a parameter of the model: a record of the answers, one field for each call the program
  makes. An error is the text that \<^verbatim>\<open>%v\<close> prints for it.
\<close>

type_synonym byte = "8 word"
type_synonym int64 = "64 word"

datatype stat_result =
  StatFileInfo bool \<comment> \<open>no error; the flag tells whether the path is a directory\<close>
| StatErrNotExist \<comment> \<open>an error for which \<^verbatim>\<open>os.IsNotExist\<close> holds\<close>
| StatErrOther string \<comment> \<open>any other error, such as a refused permission\<close>

record request =
  Method :: string
  URL :: string
  Header :: "(string \<times> string) list"

text \<open>
  A response: its \<^verbatim>\<open>ContentLength\<close> (\<open>-1\<close> when unknown), the chunks that the reads
  of its body deliver, in order, and the error that ends the body where it does not end
  with \<^verbatim>\<open>io.EOF\<close>.
\<close>

record response =
  ContentLength :: int64
  Body :: "byte list list"
  BodyErr :: "string option"

record world =
  os_Args :: "string list"
  os_LookupEnv :: "string \<Rightarrow> string option"
  os_Stat :: "string \<Rightarrow> stat_result"
  os_MkdirAll :: "string \<Rightarrow> string option"
  os_Create :: "string \<Rightarrow> string option"
  url_Parse :: "string \<Rightarrow> string option"
  client_Do :: "request \<Rightarrow> string + response"
  file_Write :: "string \<Rightarrow> byte list \<Rightarrow> string option"

text \<open>
  What the program does to the world, in the order in which one thread of control does
  it. A function that acts on the world returns the list of its effects together with
  its result.
\<close>

datatype effect =
  StatPath string
| MkdirAll string
| Getenv string
| Resolve string string string \<comment> \<open>the call of the resolver: link type, base URL, model version\<close>
| WgAdd
| Go string string string \<comment> \<open>\<^verbatim>\<open>go downloadFile\<close>: folder, URL, token\<close>
| WgWait
| CreateFile string
| HttpDo request
| ProgressLine string int64 int64
    \<comment> \<open>the printed line: file name, bytes read, total; its percentage, a quotient of floats, is left out\<close>
| WriteFile string "byte list"
| CloseBody
| CloseFile string
| WgDone

definition os_Getenv :: "world \<Rightarrow> string \<Rightarrow> string" where
  "os_Getenv w key = (case os_LookupEnv w key of None \<Rightarrow> [] | Some v \<Rightarrow> v)"

text \<open>
  \<^verbatim>\<open>http.NewRequest\<close> with a valid method: it fails exactly when the URL does not
  parse, and otherwise gives a request without headers.
\<close>

definition http_NewRequest :: "world \<Rightarrow> string \<Rightarrow> string \<Rightarrow> string + request" where
  "http_NewRequest w method url =
     (case url_Parse w url of
        Some err \<Rightarrow> Inl err
      | None \<Rightarrow> Inr \<lparr>Method = method, URL = url, Header = []\<rparr>)"

definition Header_Add :: "string \<Rightarrow> string \<Rightarrow> request \<Rightarrow> request" where
  "Header_Add key val req = req\<lparr>Header := Header req @ [(key, val)]\<rparr>"

subsection \<open>Progress reporting\<close>

text \<open>
  \<^verbatim>\<open>WriteCounter\<close>. The field \<^verbatim>\<open>read\<close> is a pointer to a counter of
  \<^verbatim>\<open>downloadFile\<close> that nothing else reads or writes, so the record holds the counter
  itself. The three numbers are \<^verbatim>\<open>int64\<close>: addition and subtraction wrap around, the
  comparison is signed and the division truncates towards zero. The field names carry the
  prefix \<open>wc_\<close>, since \<open>total\<close> is a constant of the library.
\<close>

record WriteCounter =
  wc_filename :: string
  wc_total :: int64
  wc_read :: int64
  wc_lastReported :: int64

definition int64_quo :: "int64 \<Rightarrow> int64 \<Rightarrow> int64" where
  "int64_quo a b = word_of_int (sint a sdiv sint b)"

text \<open>
  \<^verbatim>\<open>Write\<close> returns the counter as it leaves it, the lines it prints, and the pair of
  its two results: the number of bytes and the error (\<open>None\<close> for \<^verbatim>\<open>nil\<close>).
\<close>

definition WriteCounter_Write ::
  "WriteCounter \<Rightarrow> byte list \<Rightarrow> WriteCounter \<times> effect list \<times> (nat \<times> string option)" where
  "WriteCounter_Write wc p =
     (let n = length p;
          wc1 = wc\<lparr>wc_read := wc_read wc + of_nat n\<rparr>;
          onePercent = int64_quo (wc_total wc1) 100
      in if onePercent \<le>s wc_read wc1 - wc_lastReported wc1
         then (wc1\<lparr>wc_lastReported := wc_read wc1\<rparr>,
               [ProgressLine (filepath_Base (wc_filename wc1)) (wc_read wc1) (wc_total wc1)],
               (n, None))
         else (wc1, [], (n, None)))"

subsection \<open>One download\<close>

text \<open>
  \<^verbatim>\<open>io.Copy(out, io.TeeReader(resp.Body, wc))\<close>: every read that delivers bytes hands
  them to \<^verbatim>\<open>wc.Write\<close> first and to the file then; the copy stops at the first error.
  The result is the counter, the effects, and the error of the copy (\<open>None\<close> for
  \<^verbatim>\<open>nil\<close>, which is what the end of the body gives).
\<close>

fun io_Copy ::
  "world \<Rightarrow> string \<Rightarrow> WriteCounter \<Rightarrow> byte list list \<Rightarrow> string option
     \<Rightarrow> WriteCounter \<times> effect list \<times> string option" where
  "io_Copy w fp wc [] bodyErr = (wc, [], bodyErr)"
| "io_Copy w fp wc (p # ps) bodyErr =
     (if length p > 0 then
        (case WriteCounter_Write wc p of
           (wc1, printed, (n, Some err)) \<Rightarrow> (wc1, printed, Some err)
         | (wc1, printed, (n, None)) \<Rightarrow>
             (case file_Write w fp p of
                Some err \<Rightarrow> (wc1, printed, Some err)
              | None \<Rightarrow>
                  (case io_Copy w fp wc1 ps bodyErr of
                     (wc2, effs, err) \<Rightarrow> (wc2, printed @ [WriteFile fp p] @ effs, err))))
      else io_Copy w fp wc ps bodyErr)"

text \<open>
  \<^verbatim>\<open>downloadFile\<close>. The deferred calls run, last deferred first, only when the
  function returns: \<^verbatim>\<open>log.Fatal\<close> ends the process without running them.
\<close>

definition downloadFile :: "world \<Rightarrow> string \<Rightarrow> string \<Rightarrow> string \<Rightarrow> effect list \<times> (error + unit)" where
  "downloadFile w folderPath url token =
     (let fileName = getFilenameFromURL url;
          fp = filepath_Join folderPath fileName
      in case os_Create w fp of
           Some err \<Rightarrow> ([CreateFile fp], Inl (LogFatal err))
         | None \<Rightarrow>
             (case http_NewRequest w ''GET'' url of
                Inl err \<Rightarrow> ([CreateFile fp], Inl (LogFatal err))
              | Inr req0 \<Rightarrow>
                  (let req = (if token \<noteq> [] then Header_Add ''Authorization'' (''Bearer '' @ token) req0
                              else req0)
                   in case client_Do w req of
                        Inl err \<Rightarrow> ([CreateFile fp, HttpDo req], Inl (LogFatal err))
                      | Inr resp \<Rightarrow>
                          (let totalBytes = ContentLength resp;
                               wc = \<lparr>wc_filename = fp, wc_total = totalBytes,
                                     wc_read = 0, wc_lastReported = 0\<rparr>
                           in case io_Copy w fp wc (Body resp) (BodyErr resp) of
                                (wc', effs, Some err) \<Rightarrow>
                                  ([CreateFile fp, HttpDo req] @ effs, Inl (LogFatal err))
                              | (wc', effs, None) \<Rightarrow>
                                  ([CreateFile fp, HttpDo req] @ effs
                                     @ [CloseBody, CloseFile fp, WgDone], Inr ())))))"

subsection \<open>The entry point\<close>

definition ensureDirExists :: "world \<Rightarrow> string \<Rightarrow> effect list \<times> (error + unit)" where
  "ensureDirExists w dirName =
     (case os_Stat w dirName of
        StatErrNotExist \<Rightarrow>
          (case os_MkdirAll w dirName of
             Some err \<Rightarrow>
               ([StatPath dirName, MkdirAll dirName],
                Inl (LogFatal (''Failed to create directory: '' @ err)))
           | None \<Rightarrow> ([StatPath dirName, MkdirAll dirName], Inr ()))
      | _ \<Rightarrow> ([StatPath dirName], Inr ()))"

text \<open>
  The first part of \<^verbatim>\<open>main\<close>, up to and including the call of the resolver: it
  ends the process, or gives the output directory, the token and the resolved URLs.
\<close>

definition main_resolve :: "world \<Rightarrow> effect list \<times> (error + string \<times> string \<times> string list)" where
  "main_resolve w =
     (let args = os_Args w
      in if length args < 4 then
           (if length args = 0 then ([], Inl PanicIndexOutOfRange)
            else ([], Inl (LogFatal (''Usage: '' @ args ! 0
                    @ '' <link_type> <model_version> <output_directory> [external_IP] [external_port]''))))
         else
           (let linkType = args ! 1;
                modelVersion = args ! 2;
                outputDirectory = args ! 3
            in case ensureDirExists w outputDirectory of
                 (effs1, Inl e) \<Rightarrow> (effs1, Inl e)
               | (effs1, Inr _) \<Rightarrow>
                   (if linkType = PrivateLink then
                      (if length args \<noteq> 6 then
                         (effs1, Inl (LogFatal (''Usage (private link): '' @ args ! 0
                            @ '' <link_type> <model_version> <output_directory> <external_IP> <external_port>'')))
                       else
                         (let token = os_Getenv w ''AUTH_TOKEN_ENV_VAR''
                          in if token = [] then
                               (effs1 @ [Getenv ''AUTH_TOKEN_ENV_VAR''],
                                Inl (LogFatal ''AUTH_TOKEN_ENV_VAR not set!''))
                             else
                               (let externalIP = args ! 4;
                                    externalPort = args ! 5;
                                    baseURL = ''http://'' @ externalIP @ '':'' @ externalPort @ ''/download/''
                                in case getURLsForModel linkType baseURL modelVersion of
                                     Inl e \<Rightarrow>
                                       (effs1 @ [Getenv ''AUTH_TOKEN_ENV_VAR'',
                                                 Resolve linkType baseURL modelVersion], Inl e)
                                   | Inr urls \<Rightarrow>
                                       (effs1 @ [Getenv ''AUTH_TOKEN_ENV_VAR'',
                                                 Resolve linkType baseURL modelVersion],
                                        Inr (outputDirectory, token, urls)))))
                    else
                      (case getURLsForModel linkType [] modelVersion of
                         Inl e \<Rightarrow> (effs1 @ [Resolve linkType [] modelVersion], Inl e)
                       | Inr urls \<Rightarrow>
                           (effs1 @ [Resolve linkType [] modelVersion],
                            Inr (outputDirectory, [], urls))))))"

text \<open>The loop over the URLs: \<^verbatim>\<open>wg.Add(1)\<close> and the \<^verbatim>\<open>go\<close> statement for each.\<close>

fun launch :: "string \<Rightarrow> string \<Rightarrow> string list \<Rightarrow> effect list" where
  "launch outputDirectory token [] = []"
| "launch outputDirectory token (url # urls) =
     WgAdd # Go outputDirectory url token # launch outputDirectory token urls"

text \<open>
  \<^verbatim>\<open>main\<close>, as far as the thread of \<^verbatim>\<open>main\<close> itself goes: the result \<open>Inr ()\<close> says
  that it has started every task and called \<^verbatim>\<open>wg.Wait()\<close>. What the tasks do
  meanwhile, and when the wait ends, is the matter of the next subsection.
\<close>

definition main :: "world \<Rightarrow> effect list \<times> (error + unit)" where
  "main w =
     (case main_resolve w of
        (effs, Inl e) \<Rightarrow> (effs, Inl e)
      | (effs, Inr (outputDirectory, token, urls)) \<Rightarrow>
          (effs @ launch outputDirectory token urls @ [WgWait], Inr ()))"

subsection \<open>The tasks and the barrier\<close>

text \<open>
  The goroutines run interleaved. The state of the process from the loop of \<^verbatim>\<open>main\<close>
  on: where \<^verbatim>\<open>main\<close> stands, the counter of the \<^verbatim>\<open>WaitGroup\<close>, the tasks started so
  far (each with its URL and how far it has come), the effects of the tasks so far, each
  with the number of its task, in the order in which they happened, and how the process
  has ended, if it has. A schedule picks, step by step, the goroutine that moves.

  A task does the effects of its download one at a time; its deferred \<^verbatim>\<open>wg.Done()\<close>,
  the last effect of a download that returns, decrements the counter. After its last
  effect the task returns, or it enters \<^verbatim>\<open>log.Fatal\<close>, which logs the error and, as a
  step of its own, ends the process with \<^verbatim>\<open>os.Exit(1)\<close>.
\<close>

datatype task_state =
  Running nat \<comment> \<open>inside \<^verbatim>\<open>downloadFile\<close>, the number of its effects done so far\<close>
| InFatal error \<comment> \<open>inside \<^verbatim>\<open>log.Fatal\<close>: the error is logged, the process not yet ended\<close>
| Finished \<comment> \<open>\<^verbatim>\<open>downloadFile\<close> has returned\<close>

datatype main_pc =
  LoopAdd "string list" \<comment> \<open>at the head of the loop, the URLs still to come\<close>
| LoopGo string "string list" \<comment> \<open>after \<^verbatim>\<open>wg.Add(1)\<close>, before the \<^verbatim>\<open>go\<close> statement\<close>
| Waiting \<comment> \<open>in \<^verbatim>\<open>wg.Wait()\<close>\<close>
| Returned

datatype exit_status =
  ExitMain \<comment> \<open>\<^verbatim>\<open>main\<close> returned\<close>
| ExitFatal error \<comment> \<open>a task called \<^verbatim>\<open>log.Fatal\<close>\<close>

record process =
  pc :: main_pc
  wg :: int
  tasks :: "(string \<times> task_state) list"
  effects :: "(nat \<times> effect) list"
  exited :: "exit_status option"

datatype choice = MainStep | TaskStep nat

definition start :: "string list \<Rightarrow> process" where
  "start urls = \<lparr>pc = LoopAdd urls, wg = 0, tasks = [], effects = [], exited = None\<rparr>"

definition step :: "world \<Rightarrow> string \<Rightarrow> string \<Rightarrow> process \<Rightarrow> choice \<Rightarrow> process option" where
  "step w outputDirectory token s c =
     (if exited s \<noteq> None then None
      else case c of
        MainStep \<Rightarrow>
          (case pc s of
             LoopAdd [] \<Rightarrow> Some (s\<lparr>pc := Waiting\<rparr>)
           | LoopAdd (url # urls) \<Rightarrow> Some (s\<lparr>pc := LoopGo url urls, wg := wg s + 1\<rparr>)
           | LoopGo url urls \<Rightarrow>
               Some (s\<lparr>pc := LoopAdd urls, tasks := tasks s @ [(url, Running 0)]\<rparr>)
           | Waiting \<Rightarrow>
               (if wg s = 0 then Some (s\<lparr>pc := Returned, exited := Some ExitMain\<rparr>) else None)
           | Returned \<Rightarrow> None)
      | TaskStep i \<Rightarrow>
          (if i < length (tasks s) then
             (let url = fst (tasks s ! i);
                  effs = fst (downloadFile w outputDirectory url token);
                  result = snd (downloadFile w outputDirectory url token)
              in case snd (tasks s ! i) of
                   Running n \<Rightarrow>
                     (if n < length effs then
                        Some (s\<lparr>tasks := (tasks s)[i := (url, Running (Suc n))],
                                effects := effects s @ [(i, effs ! n)],
                                wg := (if effs ! n = WgDone then wg s - 1 else wg s)\<rparr>)
                      else
                        (case result of
                           Inr _ \<Rightarrow> Some (s\<lparr>tasks := (tasks s)[i := (url, Finished)]\<rparr>)
                         | Inl e \<Rightarrow> Some (s\<lparr>tasks := (tasks s)[i := (url, InFatal e)]\<rparr>)))
                 | InFatal e \<Rightarrow> Some (s\<lparr>exited := Some (ExitFatal e)\<rparr>)
                 | Finished \<Rightarrow> None)
           else None))"

fun run :: "world \<Rightarrow> string \<Rightarrow> string \<Rightarrow> process \<Rightarrow> choice list \<Rightarrow> process option" where
  "run w outputDirectory token s [] = Some s"
| "run w outputDirectory token s (c # cs) =
     (case step w outputDirectory token s c of
        None \<Rightarrow> None
      | Some s' \<Rightarrow> run w outputDirectory token s' cs)"

subsection \<open>Observations and example worlds\<close>

text \<open>What a list of effects has written to the file at a path, in order.\<close>

fun written :: "string \<Rightarrow> effect list \<Rightarrow> byte list" where
  "written path [] = []"
| "written path (WriteFile q p # effs) =
     (if q = path then p @ written path effs else written path effs)"
| "written path (e # effs) = written path effs"

text \<open>
  A world with the given arguments in which the token is set to \<open>secret\<close>, every path
  has the given answer of \<^verbatim>\<open>os.Stat\<close>, nothing fails, and every request is answered
  with a body of three bytes that arrives in two reads.
\<close>

definition example_world :: "string list \<Rightarrow> stat_result \<Rightarrow> world" where
  "example_world args st =
     \<lparr>os_Args = args,
      os_LookupEnv = (\<lambda>key. if key = ''AUTH_TOKEN_ENV_VAR'' then Some ''secret'' else None),
      os_Stat = (\<lambda>path. st),
      os_MkdirAll = (\<lambda>path. None),
      os_Create = (\<lambda>path. None),
      url_Parse = (\<lambda>url. None),
      client_Do = (\<lambda>req. Inr \<lparr>ContentLength = 3, Body = [[1, 2], [3]], BodyErr = None\<rparr>),
      file_Write = (\<lambda>path p. None)\<rparr>"

text \<open>
  A plain file name: not empty, without a separator, and neither \<open>.\<close> nor \<open>..\<close>.
  \<open>join_prefix\<close> is what \<^verbatim>\<open>filepath.Join\<close> puts in front of a plain file name
  for a given folder.
\<close>

definition plain_name :: "string \<Rightarrow> bool" where
  "plain_name name \<longleftrightarrow> name \<noteq> [] \<and> CHR ''/'' \<notin> set name \<and> name \<noteq> ''.'' \<and> name \<noteq> ''..''"

definition join_prefix :: "string \<Rightarrow> string" where
  "join_prefix folder =
     (if folder = [] then []
      else if isPathSeparator (hd folder) then
        (let out = fst (clean_loop True (tl folder) ''/'' 1)
         in if length out \<noteq> 1 then out @ ''/'' else out)
      else
        (let out = fst (clean_loop False folder [] 0)
         in if length out \<noteq> 0 then out @ ''/'' else out))"



text \<open>
  The requests among a list of effects, and the URLs that the effects of a process have
  fetched, both in order.
\<close>

fun requests :: "effect list \<Rightarrow> request list" where
  "requests [] = []"
| "requests (HttpDo req # effs) = req # requests effs"
| "requests (e # effs) = requests effs"

definition fetched :: "(nat \<times> effect) list \<Rightarrow> string list" where
  "fetched effs = map URL (requests (map snd effs))"

text \<open>The effects that a task has done so far.\<close>

definition emitted :: "world \<Rightarrow> string \<Rightarrow> string \<Rightarrow> string \<times> task_state \<Rightarrow> effect list" where
  "emitted w outputDirectory token task =
     (case snd task of
        Running n \<Rightarrow> take n (fst (downloadFile w outputDirectory (fst task) token))
      | _ \<Rightarrow> fst (downloadFile w outputDirectory (fst task) token))"

text \<open>
  The invariant of the process, in three parts. The first: the tasks started so far and
  the URLs still to come make up the resolved list; the counter of the \<^verbatim>\<open>WaitGroup\<close>
  counts the tasks whose \<^verbatim>\<open>wg.Done()\<close> has not run, and one more between
  \<^verbatim>\<open>wg.Add(1)\<close> and the \<^verbatim>\<open>go\<close> statement; \<^verbatim>\<open>main\<close> has returned only with the
  counter at zero; where a task has ended the process, that task is inside
  \<^verbatim>\<open>log.Fatal\<close>; a task inside \<^verbatim>\<open>log.Fatal\<close> is one whose download fails with that
  error, and a task that has returned is one whose download succeeds. The second: the
  URLs fetched so far are those of the requests that the tasks have done. The third:
  the effects of the process that carry the number of a task are, in order, the effects
  that this task has done so far.
\<close>

fun pending :: "main_pc \<Rightarrow> string list" where
  "pending (LoopAdd urls) = urls"
| "pending (LoopGo url urls) = url # urls"
| "pending Waiting = []"
| "pending Returned = []"

definition invariant :: "world \<Rightarrow> string \<Rightarrow> string \<Rightarrow> string list \<Rightarrow> process \<Rightarrow> bool" where
  "invariant w outputDirectory token urls s \<longleftrightarrow>
     map fst (tasks s) @ pending (pc s) = urls
     \<and> wg s = int (length (filter (\<lambda>task. WgDone \<notin> set (emitted w outputDirectory token task)) (tasks s)))
              + (case pc s of LoopGo url rest \<Rightarrow> 1 | _ \<Rightarrow> 0)
     \<and> (exited s = Some ExitMain \<longrightarrow> pc s = Returned \<and> wg s = 0)
     \<and> (\<forall>e. exited s = Some (ExitFatal e) \<longrightarrow> (\<exists>k < length (tasks s). snd (tasks s ! k) = InFatal e))
     \<and> (\<forall>k < length (tasks s). \<forall>e. snd (tasks s ! k) = InFatal e \<longrightarrow>
            snd (downloadFile w outputDirectory (fst (tasks s ! k)) token) = Inl e)
     \<and> (\<forall>k < length (tasks s). snd (tasks s ! k) = Finished \<longrightarrow>
            snd (downloadFile w outputDirectory (fst (tasks s ! k)) token) = Inr ())"

definition fetch_invariant :: "world \<Rightarrow> string \<Rightarrow> string \<Rightarrow> process \<Rightarrow> bool" where
  "fetch_invariant w outputDirectory token s \<longleftrightarrow>
     distinct (fetched (effects s))
     \<and> (\<forall>u \<in> set (fetched (effects s)). \<exists>k < length (tasks s).
            fst (tasks s ! k) = u
            \<and> (\<exists>req. HttpDo req \<in> set (emitted w outputDirectory token (tasks s ! k))))
     \<and> (\<forall>k < length (tasks s). \<forall>req.
            HttpDo req \<in> set (emitted w outputDirectory token (tasks s ! k)) \<longrightarrow>
            URL req \<in> set (fetched (effects s)))"

definition trace_invariant :: "world \<Rightarrow> string \<Rightarrow> string \<Rightarrow> process \<Rightarrow> bool" where
  "trace_invariant w outputDirectory token s \<longleftrightarrow>
     (\<forall>je \<in> set (effects s). fst je < length (tasks s))
     \<and> (\<forall>k < length (tasks s).
           map snd (filter (\<lambda>je. fst je = k) (effects s)) = emitted w outputDirectory token (tasks s ! k))"

section \<open>Properties\<close>

subsection \<open>The shard URLs\<close>

lemma fmt_05d_digits:
  "fmt_05d 1 = ''00001''" "fmt_05d 2 = ''00002''" "fmt_05d 3 = ''00003''"
  "fmt_05d 4 = ''00004''" "fmt_05d 5 = ''00005''" "fmt_05d 6 = ''00006''"
  "fmt_05d 7 = ''00007''" "fmt_05d 8 = ''00008''" "fmt_05d 9 = ''00009''"
  by (simp_all add: fmt_05d_def decimal.simps eval_nat_numeral)

lemma falconModelURLs_2:
  "falconModelURLs modelVersion 2 =
     [ ''https://huggingface.co/'' @ modelVersion @ ''/resolve/main/pytorch_model-00001-of-00002.bin'',
       ''https://huggingface.co/'' @ modelVersion @ ''/resolve/main/pytorch_model-00002-of-00002.bin'' ]"
  by (simp add: falconModelURLs_def falconModelURLs_loop.simps fmt_05d_digits)

lemma falconModelURLs_9:
  "falconModelURLs modelVersion 9 =
     [ ''https://huggingface.co/'' @ modelVersion @ ''/resolve/main/pytorch_model-00001-of-00009.bin'',
       ''https://huggingface.co/'' @ modelVersion @ ''/resolve/main/pytorch_model-00002-of-00009.bin'',
       ''https://huggingface.co/'' @ modelVersion @ ''/resolve/main/pytorch_model-00003-of-00009.bin'',
       ''https://huggingface.co/'' @ modelVersion @ ''/resolve/main/pytorch_model-00004-of-00009.bin'',
       ''https://huggingface.co/'' @ modelVersion @ ''/resolve/main/pytorch_model-00005-of-00009.bin'',
       ''https://huggingface.co/'' @ modelVersion @ ''/resolve/main/pytorch_model-00006-of-00009.bin'',
       ''https://huggingface.co/'' @ modelVersion @ ''/resolve/main/pytorch_model-00007-of-00009.bin'',
       ''https://huggingface.co/'' @ modelVersion @ ''/resolve/main/pytorch_model-00008-of-00009.bin'',
       ''https://huggingface.co/'' @ modelVersion @ ''/resolve/main/pytorch_model-00009-of-00009.bin'' ]"
  by (simp add: falconModelURLs_def falconModelURLs_loop.simps fmt_05d_digits)

text \<open>
  C1. The resolver is a function of its three arguments, so equal arguments give equal
  lists, in the same order. For the public link and the model versions
  \<open>tiiuae/falcon-7b\<close> and \<open>tiiuae/falcon-7b-instruct\<close> it returns the 2 shard URLs, in
  ascending order, and then the 8 common URLs, from \<open>config.json\<close> to
  \<open>modeling_falcon.py\<close>: 10 URLs. For \<open>tiiuae/falcon-40b\<close> and
  \<open>tiiuae/falcon-40b-instruct\<close> it returns the 9 shard URLs, in ascending order, and
  then the same 8 common URLs.
\<close>

theorem getURLsForModel_public_falcon:
  "(modelVersion = ''tiiuae/falcon-7b'' \<or> modelVersion = ''tiiuae/falcon-7b-instruct'' \<longrightarrow>
      getURLsForModel ''public'' baseURL modelVersion =
        Inr [ ''https://huggingface.co/'' @ modelVersion @ ''/resolve/main/pytorch_model-00001-of-00002.bin'',
              ''https://huggingface.co/'' @ modelVersion @ ''/resolve/main/pytorch_model-00002-of-00002.bin'',
              ''https://huggingface.co/'' @ modelVersion @ ''/raw/main/config.json'',
              ''https://huggingface.co/'' @ modelVersion @ ''/raw/main/pytorch_model.bin.index.json'',
              ''https://huggingface.co/'' @ modelVersion @ ''/raw/main/tokenizer.json'',
              ''https://huggingface.co/'' @ modelVersion @ ''/raw/main/tokenizer_config.json'',
              ''https://huggingface.co/'' @ modelVersion @ ''/raw/main/special_tokens_map.json'',
              ''https://huggingface.co/'' @ modelVersion @ ''/raw/main/configuration_falcon.py'',
              ''https://huggingface.co/'' @ modelVersion @ ''/raw/main/generation_config.json'',
              ''https://huggingface.co/'' @ modelVersion @ ''/raw/main/modeling_falcon.py'' ])
   \<and> (modelVersion = ''tiiuae/falcon-40b'' \<or> modelVersion = ''tiiuae/falcon-40b-instruct'' \<longrightarrow>
      getURLsForModel ''public'' baseURL modelVersion =
        Inr [ ''https://huggingface.co/'' @ modelVersion @ ''/resolve/main/pytorch_model-00001-of-00009.bin'',
              ''https://huggingface.co/'' @ modelVersion @ ''/resolve/main/pytorch_model-00002-of-00009.bin'',
              ''https://huggingface.co/'' @ modelVersion @ ''/resolve/main/pytorch_model-00003-of-00009.bin'',
              ''https://huggingface.co/'' @ modelVersion @ ''/resolve/main/pytorch_model-00004-of-00009.bin'',
              ''https://huggingface.co/'' @ modelVersion @ ''/resolve/main/pytorch_model-00005-of-00009.bin'',
              ''https://huggingface.co/'' @ modelVersion @ ''/resolve/main/pytorch_model-00006-of-00009.bin'',
              ''https://huggingface.co/'' @ modelVersion @ ''/resolve/main/pytorch_model-00007-of-00009.bin'',
              ''https://huggingface.co/'' @ modelVersion @ ''/resolve/main/pytorch_model-00008-of-00009.bin'',
              ''https://huggingface.co/'' @ modelVersion @ ''/resolve/main/pytorch_model-00009-of-00009.bin'',
              ''https://huggingface.co/'' @ modelVersion @ ''/raw/main/config.json'',
              ''https://huggingface.co/'' @ modelVersion @ ''/raw/main/pytorch_model.bin.index.json'',
              ''https://huggingface.co/'' @ modelVersion @ ''/raw/main/tokenizer.json'',
              ''https://huggingface.co/'' @ modelVersion @ ''/raw/main/tokenizer_config.json'',
              ''https://huggingface.co/'' @ modelVersion @ ''/raw/main/special_tokens_map.json'',
              ''https://huggingface.co/'' @ modelVersion @ ''/raw/main/configuration_falcon.py'',
              ''https://huggingface.co/'' @ modelVersion @ ''/raw/main/generation_config.json'',
              ''https://huggingface.co/'' @ modelVersion @ ''/raw/main/modeling_falcon.py'' ])"
proof (intro conjI impI)
  assume "modelVersion = ''tiiuae/falcon-7b'' \<or> modelVersion = ''tiiuae/falcon-7b-instruct''"
  then have "getURLsForModel ''public'' baseURL modelVersion =
      Inr (falconModelURLs modelVersion 2 @ falconCommonURLs modelVersion)"
    by (auto simp: getURLsForModel_def PublicLink_def)
  then show "getURLsForModel ''public'' baseURL modelVersion =
        Inr [ ''https://huggingface.co/'' @ modelVersion @ ''/resolve/main/pytorch_model-00001-of-00002.bin'',
              ''https://huggingface.co/'' @ modelVersion @ ''/resolve/main/pytorch_model-00002-of-00002.bin'',
              ''https://huggingface.co/'' @ modelVersion @ ''/raw/main/config.json'',
              ''https://huggingface.co/'' @ modelVersion @ ''/raw/main/pytorch_model.bin.index.json'',
              ''https://huggingface.co/'' @ modelVersion @ ''/raw/main/tokenizer.json'',
              ''https://huggingface.co/'' @ modelVersion @ ''/raw/main/tokenizer_config.json'',
              ''https://huggingface.co/'' @ modelVersion @ ''/raw/main/special_tokens_map.json'',
              ''https://huggingface.co/'' @ modelVersion @ ''/raw/main/configuration_falcon.py'',
              ''https://huggingface.co/'' @ modelVersion @ ''/raw/main/generation_config.json'',
              ''https://huggingface.co/'' @ modelVersion @ ''/raw/main/modeling_falcon.py'' ]"
    by (simp only: falconModelURLs_2 falconCommonURLs_def append.simps)
next
  assume mv: "modelVersion = ''tiiuae/falcon-40b'' \<or> modelVersion = ''tiiuae/falcon-40b-instruct''"
  then have "modelVersion \<noteq> ''tiiuae/falcon-7b''" "modelVersion \<noteq> ''tiiuae/falcon-7b-instruct''"
    by auto
  with mv have "getURLsForModel ''public'' baseURL modelVersion =
      Inr (falconModelURLs modelVersion 9 @ falconCommonURLs modelVersion)"
    by (simp add: getURLsForModel_def PublicLink_def)
  then show "getURLsForModel ''public'' baseURL modelVersion =
        Inr [ ''https://huggingface.co/'' @ modelVersion @ ''/resolve/main/pytorch_model-00001-of-00009.bin'',
              ''https://huggingface.co/'' @ modelVersion @ ''/resolve/main/pytorch_model-00002-of-00009.bin'',
              ''https://huggingface.co/'' @ modelVersion @ ''/resolve/main/pytorch_model-00003-of-00009.bin'',
              ''https://huggingface.co/'' @ modelVersion @ ''/resolve/main/pytorch_model-00004-of-00009.bin'',
              ''https://huggingface.co/'' @ modelVersion @ ''/resolve/main/pytorch_model-00005-of-00009.bin'',
              ''https://huggingface.co/'' @ modelVersion @ ''/resolve/main/pytorch_model-00006-of-00009.bin'',
              ''https://huggingface.co/'' @ modelVersion @ ''/resolve/main/pytorch_model-00007-of-00009.bin'',
              ''https://huggingface.co/'' @ modelVersion @ ''/resolve/main/pytorch_model-00008-of-00009.bin'',
              ''https://huggingface.co/'' @ modelVersion @ ''/resolve/main/pytorch_model-00009-of-00009.bin'',
              ''https://huggingface.co/'' @ modelVersion @ ''/raw/main/config.json'',
              ''https://huggingface.co/'' @ modelVersion @ ''/raw/main/pytorch_model.bin.index.json'',
              ''https://huggingface.co/'' @ modelVersion @ ''/raw/main/tokenizer.json'',
              ''https://huggingface.co/'' @ modelVersion @ ''/raw/main/tokenizer_config.json'',
              ''https://huggingface.co/'' @ modelVersion @ ''/raw/main/special_tokens_map.json'',
              ''https://huggingface.co/'' @ modelVersion @ ''/raw/main/configuration_falcon.py'',
              ''https://huggingface.co/'' @ modelVersion @ ''/raw/main/generation_config.json'',
              ''https://huggingface.co/'' @ modelVersion @ ''/raw/main/modeling_falcon.py'' ]"
    by (simp only: falconModelURLs_9 falconCommonURLs_def append.simps)
qed

theorem getURLsForModel_public_falcon_witness:
  "getURLsForModel ''public'' [] ''tiiuae/falcon-7b'' =
     Inr [ ''https://huggingface.co/tiiuae/falcon-7b/resolve/main/pytorch_model-00001-of-00002.bin'',
           ''https://huggingface.co/tiiuae/falcon-7b/resolve/main/pytorch_model-00002-of-00002.bin'',
           ''https://huggingface.co/tiiuae/falcon-7b/raw/main/config.json'',
           ''https://huggingface.co/tiiuae/falcon-7b/raw/main/pytorch_model.bin.index.json'',
           ''https://huggingface.co/tiiuae/falcon-7b/raw/main/tokenizer.json'',
           ''https://huggingface.co/tiiuae/falcon-7b/raw/main/tokenizer_config.json'',
           ''https://huggingface.co/tiiuae/falcon-7b/raw/main/special_tokens_map.json'',
           ''https://huggingface.co/tiiuae/falcon-7b/raw/main/configuration_falcon.py'',
           ''https://huggingface.co/tiiuae/falcon-7b/raw/main/generation_config.json'',
           ''https://huggingface.co/tiiuae/falcon-7b/raw/main/modeling_falcon.py'' ]
   \<and> length (projr (getURLsForModel ''public'' [] ''tiiuae/falcon-40b-instruct'')) = 17"
  using getURLsForModel_public_falcon [of "''tiiuae/falcon-7b''" "[]"]
        getURLsForModel_public_falcon [of "''tiiuae/falcon-40b-instruct''" "[]"]
  by simp

text \<open>
  C2. For the model versions \<open>llama-2-70b\<close> and \<open>llama-2-70b-chat\<close> the private
  resolver returns 8 URLs: the shards 00, 01, 03, 04, 05, 06 and 07, in this order, and
  then \<open>params.json\<close>. The shard 02 is not in the list.
\<close>

theorem getPrivateURLsForModel_llama_70b:
  "(modelVersion = ''llama-2-70b'' \<or> modelVersion = ''llama-2-70b-chat'' \<longrightarrow>
      getPrivateURLsForModel baseURL modelVersion =
        Inr [ baseURL @ modelVersion @ ''/consolidated.00.pth'',
              baseURL @ modelVersion @ ''/consolidated.01.pth'',
              baseURL @ modelVersion @ ''/consolidated.03.pth'',
              baseURL @ modelVersion @ ''/consolidated.04.pth'',
              baseURL @ modelVersion @ ''/consolidated.05.pth'',
              baseURL @ modelVersion @ ''/consolidated.06.pth'',
              baseURL @ modelVersion @ ''/consolidated.07.pth'',
              baseURL @ modelVersion @ ''/params.json'' ]
      \<and> length (projr (getPrivateURLsForModel baseURL modelVersion)) = 8
      \<and> baseURL @ modelVersion @ ''/consolidated.02.pth''
          \<notin> set (projr (getPrivateURLsForModel baseURL modelVersion)))"
  by (auto simp: getPrivateURLsForModel_def)

theorem getPrivateURLsForModel_llama_70b_witness:
  "getPrivateURLsForModel ''http://10.0.0.1:8080/download/'' ''llama-2-70b-chat'' =
     Inr [ ''http://10.0.0.1:8080/download/llama-2-70b-chat/consolidated.00.pth'',
           ''http://10.0.0.1:8080/download/llama-2-70b-chat/consolidated.01.pth'',
           ''http://10.0.0.1:8080/download/llama-2-70b-chat/consolidated.03.pth'',
           ''http://10.0.0.1:8080/download/llama-2-70b-chat/consolidated.04.pth'',
           ''http://10.0.0.1:8080/download/llama-2-70b-chat/consolidated.05.pth'',
           ''http://10.0.0.1:8080/download/llama-2-70b-chat/consolidated.06.pth'',
           ''http://10.0.0.1:8080/download/llama-2-70b-chat/consolidated.07.pth'',
           ''http://10.0.0.1:8080/download/llama-2-70b-chat/params.json'' ]"
  using getPrivateURLsForModel_llama_70b
          [of "''llama-2-70b-chat''" "''http://10.0.0.1:8080/download/''"]
  by simp

subsection \<open>The entry point: checks before the resolver\<close>

lemma set_launch:
  "set (launch d t urls) = (if urls = [] then {} else insert WgAdd ((\<lambda>u. Go d u t) ` set urls))"
  by (induction urls) auto

lemma StatPath_notin_launch:
  "StatPath p \<notin> set (launch d t urls)" "MkdirAll p \<notin> set (launch d t urls)"
  by (induction urls) auto

lemma ensureDirExists_effects:
  "fst (ensureDirExists w d) =
     (if os_Stat w d = StatErrNotExist then [StatPath d, MkdirAll d] else [StatPath d])"
  by (simp add: ensureDirExists_def split: stat_result.splits option.splits)

lemma ensureDirExists_result:
  "snd (ensureDirExists w d) =
     (if os_Stat w d = StatErrNotExist
      then (case os_MkdirAll w d of
              Some err \<Rightarrow> Inl (LogFatal (''Failed to create directory: '' @ err))
            | None \<Rightarrow> Inr ())
      else Inr ())"
  by (simp add: ensureDirExists_def split: stat_result.splits option.splits)

lemma main_resolve_no_Go: "Go d u t \<notin> set (fst (main_resolve w))"
  by (auto simp: main_resolve_def Let_def case_prod_beta ensureDirExists_effects
      split: sum.splits if_splits)

lemma main_of_fatal:
  "snd (main_resolve w) = Inl e \<Longrightarrow> snd (main w) = Inl e \<and> fst (main w) = fst (main_resolve w)"
  by (cases "main_resolve w") (auto simp: main_def)

lemma main_no_Go_if_fatal: "snd (main_resolve w) = Inl e \<Longrightarrow> Go d u t \<notin> set (fst (main w))"
  using main_resolve_no_Go [of d u t w] main_of_fatal [of w e] by simp

lemma main_first_effect:
  "4 \<le> length (os_Args w) \<Longrightarrow>
     \<exists>rest. fst (main w) = fst (ensureDirExists w (os_Args w ! 3)) @ rest"
  by (auto simp: main_def main_resolve_def Let_def case_prod_beta split: sum.splits if_splits)

lemma main_after_MkdirAll:
  assumes args: "4 \<le> length (os_Args w)"
    and missing: "os_Stat w (os_Args w ! 3) = StatErrNotExist"
    and created: "os_MkdirAll w (os_Args w ! 3) = None"
  shows "main w =
     (StatPath (os_Args w ! 3) # MkdirAll (os_Args w ! 3)
        # tl (fst (main (w\<lparr>os_Stat := (os_Stat w)(os_Args w ! 3 := StatFileInfo True)\<rparr>))),
      snd (main (w\<lparr>os_Stat := (os_Stat w)(os_Args w ! 3 := StatFileInfo True)\<rparr>)))"
proof -
  define w' where "w' = w\<lparr>os_Stat := (os_Stat w)(os_Args w ! 3 := StatFileInfo True)\<rparr>"
  have e: "ensureDirExists w (os_Args w ! 3) = ([StatPath (os_Args w ! 3), MkdirAll (os_Args w ! 3)], Inr ())"
    using missing created by (simp add: ensureDirExists_def)
  have e': "ensureDirExists w' (os_Args w ! 3) = ([StatPath (os_Args w ! 3)], Inr ())"
    by (simp add: ensureDirExists_def w'_def)
  have same: "os_Args w' = os_Args w" "os_Getenv w' = os_Getenv w"
    by (simp_all add: w'_def os_Getenv_def fun_eq_iff)
  have "main_resolve w =
     (StatPath (os_Args w ! 3) # MkdirAll (os_Args w ! 3) # tl (fst (main_resolve w')),
      snd (main_resolve w'))"
    using args
    by (simp add: main_resolve_def Let_def e e' same split: sum.splits)
  moreover have "fst (main_resolve w') \<noteq> []"
    using args by (simp add: main_resolve_def Let_def e' same split: sum.splits)
  ultimately have "main w = (StatPath (os_Args w ! 3) # MkdirAll (os_Args w ! 3) # tl (fst (main w')),
      snd (main w'))"
    by (cases "main_resolve w'") (auto simp: main_def split: sum.splits)
  then show ?thesis
    by (simp add: w'_def)
qed

lemma main_reaches_resolver:
  assumes args: "4 \<le> length (os_Args w)"
  shows "(\<exists>b. Resolve (os_Args w ! 1) b (os_Args w ! 2) \<in> set (fst (main w))) \<longleftrightarrow>
      (os_Stat w (os_Args w ! 3) = StatErrNotExist \<longrightarrow> os_MkdirAll w (os_Args w ! 3) = None)
      \<and> (os_Args w ! 1 = ''private'' \<longrightarrow>
           length (os_Args w) = 6 \<and> os_Getenv w ''AUTH_TOKEN_ENV_VAR'' \<noteq> [])"
proof -
  have l: "Resolve a b c \<notin> set (launch d t urls)" for a b c d t urls
    by (induction urls) auto
  show ?thesis
    using args
    by (auto simp: main_def main_resolve_def Let_def case_prod_beta ensureDirExists_effects
        ensureDirExists_result PrivateLink_def l split: sum.splits if_splits option.splits)
qed

text \<open>
  C3, as stated, fails. The claim reads the existence of the output directory as a
  precondition that the entry point validates. In the world below the directory \<open>out\<close>
  does not exist, and the run is not rejected: the entry point creates the directory,
  calls the resolver and starts the three downloads.
\<close>

theorem main_missing_directory_counterexample:
  "os_Stat (example_world [''download'', ''private'', ''llama-2-13b'', ''out'', ''10.0.0.1'', ''8080'']
       StatErrNotExist)
      (os_Args (example_world [''download'', ''private'', ''llama-2-13b'', ''out'', ''10.0.0.1'', ''8080'']
         StatErrNotExist) ! 3) = StatErrNotExist
   \<and> main (example_world [''download'', ''private'', ''llama-2-13b'', ''out'', ''10.0.0.1'', ''8080'']
       StatErrNotExist)
     = ([StatPath ''out'', MkdirAll ''out'', Getenv ''AUTH_TOKEN_ENV_VAR'',
         Resolve ''private'' ''http://10.0.0.1:8080/download/'' ''llama-2-13b'',
         WgAdd, Go ''out'' ''http://10.0.0.1:8080/download/llama-2-13b/consolidated.00.pth'' ''secret'',
         WgAdd, Go ''out'' ''http://10.0.0.1:8080/download/llama-2-13b/consolidated.01.pth'' ''secret'',
         WgAdd, Go ''out'' ''http://10.0.0.1:8080/download/llama-2-13b/params.json'' ''secret'',
         WgWait], Inr ())"
  by code_simp

text \<open>
  C3, amended. With at least three positional arguments, the first thing the entry point
  does, before the resolver is called and before any task is started, is to ask
  \<^verbatim>\<open>os.Stat\<close> about the output directory, the third positional argument. It calls
  \<^verbatim>\<open>os.MkdirAll\<close> on it exactly when the answer is that the path does not exist, as
  its second effect. When the creation fails, the process ends there with the logged
  failure. When it succeeds, the run goes on as the run with an existing directory does:
  the same effects after the creation, and the same result. Nothing more is validated:
  any two answers of \<^verbatim>\<open>os.Stat\<close> other than "does not exist" (a directory, a regular
  file, another error) give the same run. So the resolver is called exactly when the
  directory is not missing or its creation succeeds, and the checks of the private link
  pass.
\<close>

theorem main_ensures_output_directory:
  assumes args: "4 \<le> length (os_Args w)"
  shows "take 1 (fst (main w)) = [StatPath (os_Args w ! 3)]
     \<and> (MkdirAll (os_Args w ! 3) \<in> set (fst (main w)) \<longleftrightarrow> os_Stat w (os_Args w ! 3) = StatErrNotExist)
     \<and> (os_Stat w (os_Args w ! 3) = StatErrNotExist \<longrightarrow>
          take 2 (fst (main w)) = [StatPath (os_Args w ! 3), MkdirAll (os_Args w ! 3)]
          \<and> (\<forall>err. os_MkdirAll w (os_Args w ! 3) = Some err \<longrightarrow>
                main w = ([StatPath (os_Args w ! 3), MkdirAll (os_Args w ! 3)],
                          Inl (LogFatal (''Failed to create directory: '' @ err)))))
     \<and> (os_Stat w (os_Args w ! 3) = StatErrNotExist \<and> os_MkdirAll w (os_Args w ! 3) = None \<longrightarrow>
          main w =
            (StatPath (os_Args w ! 3) # MkdirAll (os_Args w ! 3)
               # tl (fst (main (w\<lparr>os_Stat := (os_Stat w)(os_Args w ! 3 := StatFileInfo True)\<rparr>))),
             snd (main (w\<lparr>os_Stat := (os_Stat w)(os_Args w ! 3 := StatFileInfo True)\<rparr>))))
     \<and> (\<forall>r. os_Stat w (os_Args w ! 3) \<noteq> StatErrNotExist \<and> r \<noteq> StatErrNotExist \<longrightarrow>
          main (w\<lparr>os_Stat := (os_Stat w)(os_Args w ! 3 := r)\<rparr>) = main w)
     \<and> ((\<exists>b. Resolve (os_Args w ! 1) b (os_Args w ! 2) \<in> set (fst (main w))) \<longleftrightarrow>
          (os_Stat w (os_Args w ! 3) = StatErrNotExist \<longrightarrow> os_MkdirAll w (os_Args w ! 3) = None)
          \<and> (os_Args w ! 1 = ''private'' \<longrightarrow>
               length (os_Args w) = 6 \<and> os_Getenv w ''AUTH_TOKEN_ENV_VAR'' \<noteq> []))"
proof (intro conjI allI impI)
  show "main w =
            (StatPath (os_Args w ! 3) # MkdirAll (os_Args w ! 3)
               # tl (fst (main (w\<lparr>os_Stat := (os_Stat w)(os_Args w ! 3 := StatFileInfo True)\<rparr>))),
             snd (main (w\<lparr>os_Stat := (os_Stat w)(os_Args w ! 3 := StatFileInfo True)\<rparr>)))"
    if "os_Stat w (os_Args w ! 3) = StatErrNotExist \<and> os_MkdirAll w (os_Args w ! 3) = None"
    by (rule main_after_MkdirAll [OF args conjunct1 [OF that] conjunct2 [OF that]])
  show "(\<exists>b. Resolve (os_Args w ! 1) b (os_Args w ! 2) \<in> set (fst (main w))) \<longleftrightarrow>
          (os_Stat w (os_Args w ! 3) = StatErrNotExist \<longrightarrow> os_MkdirAll w (os_Args w ! 3) = None)
          \<and> (os_Args w ! 1 = ''private'' \<longrightarrow>
               length (os_Args w) = 6 \<and> os_Getenv w ''AUTH_TOKEN_ENV_VAR'' \<noteq> [])"
    by (rule main_reaches_resolver [OF args])
  show "take 1 (fst (main w)) = [StatPath (os_Args w ! 3)]"
    using main_first_effect [OF args] by (auto simp: ensureDirExists_effects)
  show "MkdirAll (os_Args w ! 3) \<in> set (fst (main w)) \<longleftrightarrow> os_Stat w (os_Args w ! 3) = StatErrNotExist"
    using args
    by (auto simp: main_def main_resolve_def Let_def case_prod_beta ensureDirExists_effects
        StatPath_notin_launch split: sum.splits if_splits)
  show "take 2 (fst (main w)) = [StatPath (os_Args w ! 3), MkdirAll (os_Args w ! 3)]"
    if "os_Stat w (os_Args w ! 3) = StatErrNotExist"
    using main_first_effect [OF args] that by (auto simp: ensureDirExists_effects)
  show "main w = ([StatPath (os_Args w ! 3), MkdirAll (os_Args w ! 3)],
                          Inl (LogFatal (''Failed to create directory: '' @ err)))"
    if "os_Stat w (os_Args w ! 3) = StatErrNotExist" "os_MkdirAll w (os_Args w ! 3) = Some err" for err
    using args that by (simp add: main_def main_resolve_def ensureDirExists_def Let_def)
  show "main (w\<lparr>os_Stat := (os_Stat w)(os_Args w ! 3 := r)\<rparr>) = main w"
    if "os_Stat w (os_Args w ! 3) \<noteq> StatErrNotExist \<and> r \<noteq> StatErrNotExist" for r
  proof -
    have "ensureDirExists (w\<lparr>os_Stat := (os_Stat w)(os_Args w ! 3 := r)\<rparr>) (os_Args w ! 3)
        = ensureDirExists w (os_Args w ! 3)"
      using that by (simp add: ensureDirExists_def split: stat_result.splits)
    then have "main_resolve (w\<lparr>os_Stat := (os_Stat w)(os_Args w ! 3 := r)\<rparr>) = main_resolve w"
      by (simp add: main_resolve_def os_Getenv_def Let_def case_prod_beta split: sum.splits)
    then show ?thesis
      by (simp add: main_def)
  qed
qed

theorem main_ensures_output_directory_witness:
  "4 \<le> length (os_Args (example_world [''download'', ''public'', ''tiiuae/falcon-7b'', ''out''] StatErrNotExist))
   \<and> os_Stat (example_world [''download'', ''public'', ''tiiuae/falcon-7b'', ''out''] StatErrNotExist) ''out''
       = StatErrNotExist
   \<and> os_MkdirAll (example_world [''download'', ''public'', ''tiiuae/falcon-7b'', ''out''] StatErrNotExist) ''out''
       = None
   \<and> take 2 (fst (main (example_world [''download'', ''public'', ''tiiuae/falcon-7b'', ''out''] StatErrNotExist)))
     = [StatPath ''out'', MkdirAll ''out'']
   \<and> (\<exists>b. Resolve ''public'' b ''tiiuae/falcon-7b''
         \<in> set (fst (main (example_world [''download'', ''public'', ''tiiuae/falcon-7b'', ''out'']
              StatErrNotExist))))
   \<and> main ((example_world [''download'', ''public'', ''tiiuae/falcon-7b'', ''out''] (StatFileInfo True))
         \<lparr>os_Stat := (\<lambda>path. StatFileInfo True)(''out'' := StatFileInfo False)\<rparr>)
     = main (example_world [''download'', ''public'', ''tiiuae/falcon-7b'', ''out''] (StatFileInfo True))"
proof -
  define w1 where
    "w1 = example_world [''download'', ''public'', ''tiiuae/falcon-7b'', ''out''] StatErrNotExist"
  define w2 where
    "w2 = example_world [''download'', ''public'', ''tiiuae/falcon-7b'', ''out''] (StatFileInfo True)"
  have w1: "4 \<le> length (os_Args w1)" "os_Args w1 ! 1 = ''public''" "os_Args w1 ! 2 = ''tiiuae/falcon-7b''"
    "os_Args w1 ! 3 = ''out''" "os_Stat w1 ''out'' = StatErrNotExist" "os_MkdirAll w1 ''out'' = None"
    by (simp_all add: w1_def example_world_def)
  have w2: "4 \<le> length (os_Args w2)" "os_Args w2 ! 3 = ''out''" "os_Stat w2 = (\<lambda>path. StatFileInfo True)"
    by (simp_all add: w2_def example_world_def)
  note t1 = main_ensures_output_directory [OF w1(1)]
  note t2 = main_ensures_output_directory [OF w2(1)]
  from t1 have "take 2 (fst (main w1)) = [StatPath ''out'', MkdirAll ''out'']"
    using w1 by simp
  moreover from t1 [THEN conjunct2, THEN conjunct2, THEN conjunct2, THEN conjunct2, THEN conjunct2]
  have "\<exists>b. Resolve ''public'' b ''tiiuae/falcon-7b'' \<in> set (fst (main w1))"
    using w1 by simp
  moreover from t2
  have "main (w2\<lparr>os_Stat := (\<lambda>path. StatFileInfo True)(''out'' := StatFileInfo False)\<rparr>) = main w2"
    using w2 by simp
  ultimately show ?thesis
    using w1 unfolding w1_def w2_def by simp
qed

text \<open>
  C4, as stated, fails. The claim requires 6 positional arguments for the private link.
  In the world below 5 positional arguments follow the program name, fewer than 6, and
  the token is set: the entry point calls the resolver and starts the two downloads.
\<close>

theorem main_private_five_arguments_counterexample:
  "length (tl (os_Args (example_world [''download'', ''private'', ''llama-2-7b'', ''out'', ''10.0.0.1'', ''8080'']
       (StatFileInfo True)))) = 5
   \<and> main (example_world [''download'', ''private'', ''llama-2-7b'', ''out'', ''10.0.0.1'', ''8080'']
       (StatFileInfo True))
     = ([StatPath ''out'', Getenv ''AUTH_TOKEN_ENV_VAR'',
         Resolve ''private'' ''http://10.0.0.1:8080/download/'' ''llama-2-7b'',
         WgAdd, Go ''out'' ''http://10.0.0.1:8080/download/llama-2-7b/consolidated.00.pth'' ''secret'',
         WgAdd, Go ''out'' ''http://10.0.0.1:8080/download/llama-2-7b/params.json'' ''secret'',
         WgWait], Inr ())"
  by code_simp

text \<open>
  C4, amended. For the link type \<open>private\<close>, when \<^verbatim>\<open>os.Args\<close> does not have exactly
  6 entries (the program name and 5 positional arguments), or when the environment
  variable \<open>AUTH_TOKEN_ENV_VAR\<close> is unset or empty, the program logs an error and
  ends: the resolver is not called and no download task is started.
\<close>

theorem main_private_link_checks:
  assumes "2 \<le> length (os_Args w)" and "os_Args w ! 1 = ''private''"
    and "length (os_Args w) \<noteq> 6
       \<or> os_LookupEnv w ''AUTH_TOKEN_ENV_VAR'' = None
       \<or> os_LookupEnv w ''AUTH_TOKEN_ENV_VAR'' = Some []"
  shows "(\<exists>msg. snd (main w) = Inl (LogFatal msg))
     \<and> (\<forall>linkType baseURL modelVersion. Resolve linkType baseURL modelVersion \<notin> set (fst (main w)))
     \<and> (\<forall>d u t. Go d u t \<notin> set (fst (main w)))"
proof -
  have "(\<exists>msg. snd (main_resolve w) = Inl (LogFatal msg))
     \<and> (\<forall>linkType baseURL modelVersion. Resolve linkType baseURL modelVersion \<notin> set (fst (main_resolve w)))"
    using assms
    by (auto simp: main_resolve_def Let_def case_prod_beta ensureDirExists_effects
        ensureDirExists_result os_Getenv_def PrivateLink_def
        split: sum.splits if_splits option.splits)
  then show ?thesis
    using main_resolve_no_Go [of _ _ _ w] main_of_fatal [of w] by metis
qed

theorem main_private_link_checks_witness:
  "(\<exists>msg. snd (main (example_world [''download'', ''private'', ''llama-2-7b'', ''out'', ''10.0.0.1'']
        (StatFileInfo True))) = Inl (LogFatal msg))
   \<and> (\<forall>d u t. Go d u t \<notin> set (fst (main
          (example_world [''download'', ''private'', ''llama-2-7b'', ''out'', ''10.0.0.1''] (StatFileInfo True)))))
   \<and> (\<forall>d u t. Go d u t \<notin> set (fst (main
          ((example_world [''download'', ''private'', ''llama-2-7b'', ''out'', ''10.0.0.1'', ''8080'']
              (StatFileInfo True))\<lparr>os_LookupEnv := (\<lambda>key. None)\<rparr>))))"
  using main_private_link_checks
      [of "example_world [''download'', ''private'', ''llama-2-7b'', ''out'', ''10.0.0.1''] (StatFileInfo True)"]
    main_private_link_checks
      [of "(example_world [''download'', ''private'', ''llama-2-7b'', ''out'', ''10.0.0.1'', ''8080'']
              (StatFileInfo True))\<lparr>os_LookupEnv := (\<lambda>key. None)\<rparr>"]
  by (simp add: example_world_def)

subsection \<open>Invalid model versions\<close>

lemma getURLsForModel_invalid_public:
  "modelVersion \<notin> {''tiiuae/falcon-7b'', ''tiiuae/falcon-7b-instruct'',
                     ''tiiuae/falcon-40b'', ''tiiuae/falcon-40b-instruct''}
   \<Longrightarrow> getURLsForModel ''public'' baseURL modelVersion =
         Inl (LogFatal (''Invalid model version for public link: '' @ modelVersion))"
  by (simp add: getURLsForModel_def PublicLink_def)

lemma getURLsForModel_invalid_private:
  "linkType \<noteq> ''public'' \<Longrightarrow>
   modelVersion \<notin> {''llama-2-7b'', ''llama-2-7b-chat'', ''llama-2-13b'', ''llama-2-13b-chat'',
                     ''llama-2-70b'', ''llama-2-70b-chat''}
   \<Longrightarrow> getURLsForModel linkType baseURL modelVersion =
         Inl (LogFatal (''Invalid model version for private link: '' @ modelVersion))"
  by (simp add: getURLsForModel_def PublicLink_def getPrivateURLsForModel_def)

text \<open>
  C5. For a model version outside the accepted set of the link type (the four falcon
  versions for \<open>public\<close>, the six llama versions for any other link type) the resolver
  logs the invalid model version and ends the process. In a run of the entry point with
  such arguments the process ends with an error and no download task is started; where
  the resolver is reached, the error is the one of the resolver.
\<close>

theorem invalid_model_version_is_fatal:
  assumes invalid:
    "linkType = ''public'' \<and>
       modelVersion \<notin> {''tiiuae/falcon-7b'', ''tiiuae/falcon-7b-instruct'',
                         ''tiiuae/falcon-40b'', ''tiiuae/falcon-40b-instruct''}
     \<or> linkType \<noteq> ''public'' \<and>
       modelVersion \<notin> {''llama-2-7b'', ''llama-2-7b-chat'', ''llama-2-13b'', ''llama-2-13b-chat'',
                         ''llama-2-70b'', ''llama-2-70b-chat''}"
  shows "getURLsForModel linkType baseURL modelVersion =
           Inl (LogFatal (''Invalid model version for ''
                  @ (if linkType = ''public'' then ''public'' else ''private'') @ '' link: '' @ modelVersion))
     \<and> (4 \<le> length (os_Args w) \<and> os_Args w ! 1 = linkType \<and> os_Args w ! 2 = modelVersion \<longrightarrow>
          (\<exists>e. snd (main w) = Inl e)
          \<and> (\<forall>d u t. Go d u t \<notin> set (fst (main w)))
          \<and> (\<forall>b. Resolve linkType b modelVersion \<in> set (fst (main w)) \<longrightarrow>
                snd (main w) = Inl (LogFatal (''Invalid model version for ''
                  @ (if linkType = ''public'' then ''public'' else ''private'') @ '' link: '' @ modelVersion))))"
proof -
  define msg where "msg = LogFatal (''Invalid model version for ''
      @ (if linkType = ''public'' then ''public'' else ''private'') @ '' link: '' @ modelVersion)"
  have res: "getURLsForModel linkType b modelVersion = Inl msg" for b
    using invalid getURLsForModel_invalid_public [of modelVersion b]
      getURLsForModel_invalid_private [of linkType modelVersion b]
    by (auto simp: msg_def)
  have resolve: "(\<exists>e. snd (main_resolve w) = Inl e)
      \<and> (\<forall>b. Resolve linkType b modelVersion \<in> set (fst (main_resolve w)) \<longrightarrow>
            snd (main_resolve w) = Inl msg)"
    if "4 \<le> length (os_Args w)" "os_Args w ! 1 = linkType" "os_Args w ! 2 = modelVersion"
    using that res
    by (auto simp: main_resolve_def Let_def case_prod_beta ensureDirExists_effects
        split: sum.splits if_splits)
  have "(\<exists>e. snd (main w) = Inl e)
          \<and> (\<forall>d u t. Go d u t \<notin> set (fst (main w)))
          \<and> (\<forall>b. Resolve linkType b modelVersion \<in> set (fst (main w)) \<longrightarrow> snd (main w) = Inl msg)"
    if args: "4 \<le> length (os_Args w)" "os_Args w ! 1 = linkType" "os_Args w ! 2 = modelVersion"
  proof -
    from resolve [OF args] obtain e where e: "snd (main_resolve w) = Inl e"
      by blast
    from resolve [OF args] e
    have "\<forall>b. Resolve linkType b modelVersion \<in> set (fst (main_resolve w)) \<longrightarrow> e = msg"
      by simp
    with main_of_fatal [OF e] main_no_Go_if_fatal [OF e] show ?thesis
      by simp
  qed
  with res show ?thesis
    unfolding msg_def by blast
qed

theorem invalid_model_version_is_fatal_witness:
  "getURLsForModel ''public'' [] ''llama-2-7b'' =
     Inl (LogFatal ''Invalid model version for public link: llama-2-7b'')
   \<and> (\<exists>e. snd (main (example_world [''download'', ''public'', ''llama-2-7b'', ''out''] (StatFileInfo True)))
          = Inl e)
   \<and> (\<forall>d u t. Go d u t \<notin> set (fst (main
          (example_world [''download'', ''public'', ''llama-2-7b'', ''out''] (StatFileInfo True)))))"
  using invalid_model_version_is_fatal [of "''public''" "''llama-2-7b''" "[]"
      "example_world [''download'', ''public'', ''llama-2-7b'', ''out''] (StatFileInfo True)"]
  by (simp add: example_world_def)

subsection \<open>The request and the file of a download\<close>

lemma WriteCounter_Write_effects:
  "WriteCounter_Write wc p = (wc1, printed, r) \<Longrightarrow>
     r = (length p, None) \<and> (\<forall>e \<in> set printed. \<exists>name n t. e = ProgressLine name n t)"
  by (auto simp: WriteCounter_Write_def Let_def split: if_splits)

lemma io_Copy_effects:
  "io_Copy w fp wc ps bodyErr = (wc', effs, err) \<Longrightarrow>
     \<forall>e \<in> set effs. (\<exists>name n t. e = ProgressLine name n t) \<or> (\<exists>p. e = WriteFile fp p)"
proof (induction ps arbitrary: wc wc' effs err)
  case Nil
  then show ?case by simp
next
  case (Cons p ps)
  show ?case
  proof (cases "length p > 0")
    case False
    with Cons show ?thesis by simp
  next
    case True
    obtain wc1 printed r where wr: "WriteCounter_Write wc p = (wc1, printed, r)"
      by (cases "WriteCounter_Write wc p") auto
    note w1 = WriteCounter_Write_effects [OF wr]
    show ?thesis
    proof (cases "file_Write w fp p")
      case (Some e)
      with Cons.prems True wr w1 show ?thesis by auto
    next
      case None
      obtain wc2 effs2 err2 where rest: "io_Copy w fp wc1 ps bodyErr = (wc2, effs2, err2)"
        by (cases "io_Copy w fp wc1 ps bodyErr") auto
      from Cons.prems True wr w1 None rest
      have "effs = printed @ [WriteFile fp p] @ effs2" by auto
      with Cons.IH [OF rest] w1 show ?thesis by auto
    qed
  qed
qed

lemma downloadFile_HttpDo:
  "HttpDo req \<in> set (fst (downloadFile w folderPath url token)) \<Longrightarrow>
     req = \<lparr>Method = ''GET'', URL = url,
            Header = (if token \<noteq> [] then [(''Authorization'', ''Bearer '' @ token)] else [])\<rparr>"
  by (auto simp: downloadFile_def Let_def http_NewRequest_def Header_Add_def
      split: option.splits sum.splits prod.splits if_splits dest!: io_Copy_effects)

lemma main_public_token:
  "os_Args w ! 1 = ''public'' \<Longrightarrow> Go d u t \<in> set (fst (main w)) \<Longrightarrow> t = []"
  by (auto simp: main_def main_resolve_def Let_def case_prod_beta ensureDirExists_effects
        PrivateLink_def set_launch split: sum.splits if_splits)

lemma downloadFile_example:
  "downloadFile (example_world args st) ''out''
       ''http://10.0.0.1:8080/download/llama-2-7b/params.json'' ''secret''
     = ([CreateFile ''out/params.json'',
         HttpDo \<lparr>Method = ''GET'', URL = ''http://10.0.0.1:8080/download/llama-2-7b/params.json'',
                 Header = [(''Authorization'', ''Bearer secret'')]\<rparr>,
         ProgressLine ''params.json'' 2 3, WriteFile ''out/params.json'' [1, 2],
         ProgressLine ''params.json'' 3 3, WriteFile ''out/params.json'' [3],
         CloseBody, CloseFile ''out/params.json'', WgDone], Inr ())"
  by code_simp

lemma downloadFile_example_public:
  "downloadFile (example_world args st) ''out''
       ''https://huggingface.co/tiiuae/falcon-7b/raw/main/config.json'' []
     = ([CreateFile ''out/config.json'',
         HttpDo \<lparr>Method = ''GET'', URL = ''https://huggingface.co/tiiuae/falcon-7b/raw/main/config.json'',
                 Header = []\<rparr>,
         ProgressLine ''config.json'' 2 3, WriteFile ''out/config.json'' [1, 2],
         ProgressLine ''config.json'' 3 3, WriteFile ''out/config.json'' [3],
         CloseBody, CloseFile ''out/config.json'', WgDone], Inr ())"
  by code_simp

lemma main_example_public:
  "Go ''out'' ''https://huggingface.co/tiiuae/falcon-7b/raw/main/config.json'' []
     \<in> set (fst (main (example_world [''download'', ''public'', ''tiiuae/falcon-7b'', ''out'']
          (StatFileInfo True))))"
  by code_simp

text \<open>
  C6. Every request of a download has the method \<open>GET\<close> and the URL of the download,
  and it carries the header \<open>Authorization\<close>, with the value \<open>Bearer\<close> and the token,
  exactly when the token is not empty; it carries no other header. For the link type
  \<open>public\<close> every task is started with the empty token, so its requests have no header.
\<close>

theorem downloadFile_request:
  "(\<forall>req. HttpDo req \<in> set (fst (downloadFile w folderPath url token)) \<longrightarrow>
       Method req = ''GET'' \<and> URL req = url
       \<and> Header req = (if token \<noteq> [] then [(''Authorization'', ''Bearer '' @ token)] else [])
       \<and> ((\<exists>v. (''Authorization'', v) \<in> set (Header req)) \<longleftrightarrow> token \<noteq> []))
   \<and> (os_Args w ! 1 = ''public'' \<longrightarrow>
        (\<forall>d u t. Go d u t \<in> set (fst (main w)) \<longrightarrow>
           t = [] \<and> (\<forall>req. HttpDo req \<in> set (fst (downloadFile w d u t)) \<longrightarrow> Header req = [])))"
proof (intro conjI allI impI)
  fix req
  assume "HttpDo req \<in> set (fst (downloadFile w folderPath url token))"
  from downloadFile_HttpDo [OF this]
  show "Method req = ''GET''" "URL req = url"
    "Header req = (if token \<noteq> [] then [(''Authorization'', ''Bearer '' @ token)] else [])"
    "(\<exists>v. (''Authorization'', v) \<in> set (Header req)) \<longleftrightarrow> token \<noteq> []"
    by simp_all
next
  fix d u t
  assume "os_Args w ! 1 = ''public''" "Go d u t \<in> set (fst (main w))"
  then show t: "t = []"
    by (rule main_public_token)
  fix req
  assume "HttpDo req \<in> set (fst (downloadFile w d u t))"
  from downloadFile_HttpDo [OF this] t show "Header req = []"
    by simp
qed

theorem downloadFile_request_witness:
  "HttpDo \<lparr>Method = ''GET'', URL = ''http://10.0.0.1:8080/download/llama-2-7b/params.json'',
           Header = [(''Authorization'', ''Bearer secret'')]\<rparr>
     \<in> set (fst (downloadFile (example_world [] (StatFileInfo True)) ''out''
           ''http://10.0.0.1:8080/download/llama-2-7b/params.json'' ''secret''))
   \<and> os_Args (example_world [''download'', ''public'', ''tiiuae/falcon-7b'', ''out''] (StatFileInfo True)) ! 1
       = ''public''
   \<and> Go ''out'' ''https://huggingface.co/tiiuae/falcon-7b/raw/main/config.json'' []
       \<in> set (fst (main (example_world [''download'', ''public'', ''tiiuae/falcon-7b'', ''out'']
            (StatFileInfo True))))
   \<and> HttpDo \<lparr>Method = ''GET'', URL = ''https://huggingface.co/tiiuae/falcon-7b/raw/main/config.json'',
             Header = []\<rparr>
       \<in> set (fst (downloadFile
            (example_world [''download'', ''public'', ''tiiuae/falcon-7b'', ''out''] (StatFileInfo True))
            ''out'' ''https://huggingface.co/tiiuae/falcon-7b/raw/main/config.json'' []))"
  using downloadFile_request
      [of "example_world [] (StatFileInfo True)" "''out''"
          "''http://10.0.0.1:8080/download/llama-2-7b/params.json''" "''secret''"]
    downloadFile_request
      [of "example_world [''download'', ''public'', ''tiiuae/falcon-7b'', ''out''] (StatFileInfo True)"]
    main_example_public
  by (simp add: downloadFile_example downloadFile_example_public) (simp add: example_world_def)

lemma written_append: "written path (xs @ ys) = written path xs @ written path ys"
  by (induction path xs rule: written.induct) auto

lemma written_ProgressLines:
  "\<forall>e \<in> set effs. \<exists>name n t. e = ProgressLine name n t \<Longrightarrow> written path effs = []"
  by (induction path effs rule: written.induct) auto

lemma io_Copy_written:
  "io_Copy w fp wc ps bodyErr = (wc', effs, None) \<Longrightarrow> written fp effs = concat ps"
proof (induction ps arbitrary: wc wc' effs)
  case Nil
  then show ?case by simp
next
  case (Cons p ps)
  show ?case
  proof (cases "length p > 0")
    case False
    with Cons show ?thesis by simp
  next
    case True
    obtain wc1 printed r where wr: "WriteCounter_Write wc p = (wc1, printed, r)"
      by (cases "WriteCounter_Write wc p") auto
    note w1 = WriteCounter_Write_effects [OF wr]
    obtain wc2 effs2 err2 where rest: "io_Copy w fp wc1 ps bodyErr = (wc2, effs2, err2)"
      by (cases "io_Copy w fp wc1 ps bodyErr") auto
    from Cons.prems True wr w1 rest
    have *: "file_Write w fp p = None \<and> err2 = None \<and> effs = printed @ [WriteFile fp p] @ effs2"
      by (auto split: option.splits)
    with Cons.IH [of wc1 wc2 effs2] rest have "written fp effs2 = concat ps"
      by simp
    with * w1 show ?thesis
      by (simp add: written_append written_ProgressLines)
  qed
qed

lemma filepath_Base_last_element:
  assumes "name \<noteq> []" and "CHR ''/'' \<notin> set name"
  shows "filepath_Base (dir @ ''/'' @ name) = name"
proof -
  have "last name \<noteq> CHR ''/''"
    using assms by (metis last_in_set)
  then have "dropWhile isPathSeparator (rev name @ CHR ''/'' # rev dir) = rev name @ CHR ''/'' # rev dir"
    using assms(1) by (cases "rev name") (auto simp: isPathSeparator_def last_rev)
  moreover have "takeWhile (\<lambda>c. \<not> isPathSeparator c) (rev name @ CHR ''/'' # rev dir) = rev name"
    using assms(2) by (auto simp: takeWhile_append2 isPathSeparator_def takeWhile_tail)
  ultimately show ?thesis
    using assms(1) by (simp add: filepath_Base_def Let_def)
qed

lemma downloadFile_success:
  assumes "snd (downloadFile w folderPath url token) = Inr ()"
  shows "\<exists>req resp wc' effs.
      client_Do w req = Inr resp
      \<and> io_Copy w (filepath_Join folderPath (filepath_Base url))
           \<lparr>wc_filename = filepath_Join folderPath (filepath_Base url), wc_total = ContentLength resp,
              wc_read = 0, wc_lastReported = 0\<rparr> (Body resp) (BodyErr resp) = (wc', effs, None)
      \<and> fst (downloadFile w folderPath url token) =
          [CreateFile (filepath_Join folderPath (filepath_Base url)), HttpDo req] @ effs
            @ [CloseBody, CloseFile (filepath_Join folderPath (filepath_Base url)), WgDone]"
proof -
  define fp where "fp = filepath_Join folderPath (filepath_Base url)"
  have created: "os_Create w fp = None"
    using assms
    by (cases "os_Create w fp") (auto simp: downloadFile_def Let_def getFilenameFromURL_def fp_def)
  obtain req0 where req0: "http_NewRequest w ''GET'' url = Inr req0"
    using assms created
    by (cases "http_NewRequest w ''GET'' url")
       (auto simp: downloadFile_def Let_def getFilenameFromURL_def fp_def)
  define req where
    "req = (if token \<noteq> [] then Header_Add ''Authorization'' (''Bearer '' @ token) req0 else req0)"
  obtain resp where resp: "client_Do w req = Inr resp"
    using assms created req0
    by (cases "client_Do w req")
       (auto simp: downloadFile_def Let_def getFilenameFromURL_def fp_def req_def)
  obtain wc' effs err where copy:
    "io_Copy w fp \<lparr>wc_filename = fp, wc_total = ContentLength resp, wc_read = 0, wc_lastReported = 0\<rparr>
       (Body resp) (BodyErr resp) = (wc', effs, err)"
    using prod_cases3 by blast
  have unfolded: "downloadFile w folderPath url token =
      (case err of
         Some e \<Rightarrow> ([CreateFile fp, HttpDo req] @ effs, Inl (LogFatal e))
       | None \<Rightarrow> ([CreateFile fp, HttpDo req] @ effs @ [CloseBody, CloseFile fp, WgDone], Inr ()))"
    using created req0 resp copy
    by (simp add: downloadFile_def Let_def getFilenameFromURL_def fp_def [symmetric] req_def [symmetric]
        split: option.splits)
  with assms have "err = None"
    by (cases err) auto
  with unfolded resp copy show ?thesis
    unfolding fp_def by auto
qed

text \<open>
  C7. A download creates and writes one file only: the one whose path is the output
  directory joined with the base name of the URL, where the base name of a URL that ends
  in a separator and a name without separators is that name. When the download returns,
  what it has written to that file is the body of the response, in order.
\<close>

theorem downloadFile_writes_one_file:
  "(\<forall>path. CreateFile path \<in> set (fst (downloadFile w folderPath url token)) \<longrightarrow>
       path = filepath_Join folderPath (filepath_Base url))
   \<and> (\<forall>path p. WriteFile path p \<in> set (fst (downloadFile w folderPath url token)) \<longrightarrow>
       path = filepath_Join folderPath (filepath_Base url))
   \<and> (snd (downloadFile w folderPath url token) = Inr () \<longrightarrow>
        (\<exists>req resp. HttpDo req \<in> set (fst (downloadFile w folderPath url token))
           \<and> client_Do w req = Inr resp
           \<and> written (filepath_Join folderPath (filepath_Base url))
                (fst (downloadFile w folderPath url token)) = concat (Body resp)))
   \<and> (name \<noteq> [] \<and> CHR ''/'' \<notin> set name \<longrightarrow> getFilenameFromURL (dir @ ''/'' @ name) = name)"
proof (intro conjI allI impI)
  fix path
  assume "CreateFile path \<in> set (fst (downloadFile w folderPath url token))"
  then show "path = filepath_Join folderPath (filepath_Base url)"
    by (auto simp: downloadFile_def Let_def getFilenameFromURL_def
        split: option.splits sum.splits prod.splits if_splits dest!: io_Copy_effects)
next
  fix path p
  assume "WriteFile path p \<in> set (fst (downloadFile w folderPath url token))"
  then show "path = filepath_Join folderPath (filepath_Base url)"
    by (auto simp: downloadFile_def Let_def getFilenameFromURL_def
        split: option.splits sum.splits prod.splits if_splits dest!: io_Copy_effects)
next
  assume "snd (downloadFile w folderPath url token) = Inr ()"
  from downloadFile_success [OF this] obtain req resp wc' effs where
    do: "client_Do w req = Inr resp"
    and copy: "io_Copy w (filepath_Join folderPath (filepath_Base url))
           \<lparr>wc_filename = filepath_Join folderPath (filepath_Base url), wc_total = ContentLength resp,
              wc_read = 0, wc_lastReported = 0\<rparr> (Body resp) (BodyErr resp) = (wc', effs, None)"
    and effs: "fst (downloadFile w folderPath url token) =
          [CreateFile (filepath_Join folderPath (filepath_Base url)), HttpDo req] @ effs
            @ [CloseBody, CloseFile (filepath_Join folderPath (filepath_Base url)), WgDone]"
    by blast
  from io_Copy_written [OF copy] effs
  have "written (filepath_Join folderPath (filepath_Base url))
                (fst (downloadFile w folderPath url token)) = concat (Body resp)"
    by (simp add: written_append)
  with do effs
  show "\<exists>req resp. HttpDo req \<in> set (fst (downloadFile w folderPath url token))
           \<and> client_Do w req = Inr resp
           \<and> written (filepath_Join folderPath (filepath_Base url))
                (fst (downloadFile w folderPath url token)) = concat (Body resp)"
    by auto
next
  assume "name \<noteq> [] \<and> CHR ''/'' \<notin> set name"
  then show "getFilenameFromURL (dir @ ''/'' @ name) = name"
    using filepath_Base_last_element [of name dir] by (simp add: getFilenameFromURL_def)
qed


lemma params_json_path:
  "filepath_Join ''out'' (filepath_Base ''http://10.0.0.1:8080/download/llama-2-7b/params.json'')
     = ''out/params.json''"
  "getFilenameFromURL ''http://10.0.0.1:8080/download/llama-2-7b/params.json'' = ''params.json''"
  by code_simp+

theorem downloadFile_writes_one_file_witness:
  "CreateFile ''out/params.json''
     \<in> set (fst (downloadFile (example_world [] (StatFileInfo True)) ''out''
           ''http://10.0.0.1:8080/download/llama-2-7b/params.json'' ''secret''))
   \<and> snd (downloadFile (example_world [] (StatFileInfo True)) ''out''
           ''http://10.0.0.1:8080/download/llama-2-7b/params.json'' ''secret'') = Inr ()
   \<and> filepath_Join ''out'' (filepath_Base ''http://10.0.0.1:8080/download/llama-2-7b/params.json'')
       = ''out/params.json''
   \<and> written ''out/params.json''
        (fst (downloadFile (example_world [] (StatFileInfo True)) ''out''
           ''http://10.0.0.1:8080/download/llama-2-7b/params.json'' ''secret'')) = [1, 2, 3]
   \<and> getFilenameFromURL ''http://10.0.0.1:8080/download/llama-2-7b/params.json'' = ''params.json''"
  using downloadFile_writes_one_file
      [of "example_world [] (StatFileInfo True)" "''out''"
          "''http://10.0.0.1:8080/download/llama-2-7b/params.json''" "''secret''"
          "''params.json''" "''http://10.0.0.1:8080/download/llama-2-7b''"]
  by (simp only: params_json_path downloadFile_example) simp

subsection \<open>Distinct files\<close>

lemma takeWhile_before_separator:
  "takeWhile (\<lambda>c. \<not> isPathSeparator c) (xs @ CHR ''/'' # ys) = takeWhile (\<lambda>c. \<not> isPathSeparator c) xs"
  by (induction xs) (auto simp: isPathSeparator_def)

lemma dropWhile_before_separator:
  "dropWhile (\<lambda>c. \<not> isPathSeparator c) (xs @ CHR ''/'' # ys)
     = dropWhile (\<lambda>c. \<not> isPathSeparator c) xs @ CHR ''/'' # ys"
  by (induction xs) (auto simp: isPathSeparator_def)

lemma clean_loop_separator:
  "clean_loop rooted (xs @ CHR ''/'' # ys) out dotdot =
     (case clean_loop rooted xs out dotdot of (out', dotdot') \<Rightarrow> clean_loop rooted ys out' dotdot')"
proof (induction rooted xs out dotdot rule: clean_loop.induct)
  case (1 rooted out dotdot)
  show ?case
    by (simp add: clean_loop.simps isPathSeparator_def)
next
  case (2 rooted c cs out dotdot)
  have hd_eq: "isPathSeparator (hd (cs @ CHR ''/'' # ys)) \<longleftrightarrow> (cs = [] \<or> isPathSeparator (hd cs))"
    by (cases cs) (auto simp: isPathSeparator_def)
  have eq0: "(c # cs) @ CHR ''/'' # ys = c # (cs @ CHR ''/'' # ys)"
    by simp
  note unf = clean_loop.simps(2) [of rooted c "cs @ CHR ''/'' # ys" out dotdot]
    clean_loop.simps(2) [of rooted c cs out dotdot]
  consider (sep) "isPathSeparator c"
    | (dot) "\<not> isPathSeparator c" "c = CHR ''.''" "cs = [] \<or> isPathSeparator (hd cs)"
    | (dotdot) "\<not> isPathSeparator c" "\<not> (c = CHR ''.'' \<and> (cs = [] \<or> isPathSeparator (hd cs)))"
        "c = CHR ''.'' \<and> hd cs = CHR ''.'' \<and> (tl cs = [] \<or> isPathSeparator (hd (tl cs)))"
    | (elem) "\<not> isPathSeparator c" "\<not> (c = CHR ''.'' \<and> (cs = [] \<or> isPathSeparator (hd cs)))"
        "\<not> (c = CHR ''.'' \<and> hd cs = CHR ''.'' \<and> (tl cs = [] \<or> isPathSeparator (hd (tl cs))))"
    by blast
  then show ?case
  proof cases
    case sep
    with "2.IH"(1) show ?thesis
      unfolding eq0 unf by simp
  next
    case dot
    with "2.IH"(2) hd_eq show ?thesis
      unfolding eq0 unf by simp
  next
    case dotdot
    then have cs: "cs \<noteq> []" "\<not> isPathSeparator (hd cs)"
      by auto
    then have tl_eq: "tl (cs @ CHR ''/'' # ys) = tl cs @ CHR ''/'' # ys"
      and hd_eq2: "hd (cs @ CHR ''/'' # ys) = hd cs"
      by simp_all
    have hd_tl: "isPathSeparator (hd (tl cs @ CHR ''/'' # ys)) \<longleftrightarrow> (tl cs = [] \<or> isPathSeparator (hd (tl cs)))"
      by (cases "tl cs") (auto simp: isPathSeparator_def)
    have a: "isPathSeparator c = False"
      and b: "(c = CHR ''.'' \<and> (cs = [] \<or> isPathSeparator (hd cs))) = False"
      and b': "(c = CHR ''.'' \<and> (cs @ CHR ''/'' # ys = [] \<or> isPathSeparator (hd (cs @ CHR ''/'' # ys)))) = False"
      and c: "(c = CHR ''.'' \<and> hd cs = CHR ''.'' \<and> (tl cs = [] \<or> isPathSeparator (hd (tl cs)))) = True"
      and c': "(c = CHR ''.'' \<and> hd (cs @ CHR ''/'' # ys) = CHR ''.''
        \<and> (tl cs @ CHR ''/'' # ys = [] \<or> isPathSeparator (hd (tl cs @ CHR ''/'' # ys)))) = True"
      using dotdot cs hd_tl by (simp_all add: tl_eq)
    note ih = "2.IH"(3) [OF dotdot] "2.IH"(4) [OF dotdot] "2.IH"(5) [OF dotdot]
    show ?thesis
      unfolding eq0 unf
      apply (simp only: tl_eq)
      apply (simp only: a b b' c c' if_False if_True)
      using ih by (simp add: Let_def)
  next
    case elem
    have hd_tl: "cs \<noteq> [] \<Longrightarrow> isPathSeparator (hd (tl cs @ CHR ''/'' # ys)) \<longleftrightarrow> (tl cs = [] \<or> isPathSeparator (hd (tl cs)))"
      by (cases "tl cs") (auto simp: isPathSeparator_def)
    have a: "isPathSeparator c = False"
      and b: "(c = CHR ''.'' \<and> (cs = [] \<or> isPathSeparator (hd cs))) = False"
      and b': "(c = CHR ''.'' \<and> (cs @ CHR ''/'' # ys = [] \<or> isPathSeparator (hd (cs @ CHR ''/'' # ys)))) = False"
      and c: "(c = CHR ''.'' \<and> hd cs = CHR ''.'' \<and> (tl cs = [] \<or> isPathSeparator (hd (tl cs)))) = False"
      using elem hd_eq by simp_all
    have c': "(c = CHR ''.'' \<and> hd (cs @ CHR ''/'' # ys) = CHR ''.''
        \<and> (tl (cs @ CHR ''/'' # ys) = [] \<or> isPathSeparator (hd (tl (cs @ CHR ''/'' # ys))))) = False"
      using elem hd_tl by (cases cs) auto
    have tw: "takeWhile (\<lambda>c. \<not> isPathSeparator c) (c # cs @ CHR ''/'' # ys)
        = takeWhile (\<lambda>c. \<not> isPathSeparator c) (c # cs)"
      and dw: "dropWhile (\<lambda>c. \<not> isPathSeparator c) (c # cs @ CHR ''/'' # ys)
        = dropWhile (\<lambda>c. \<not> isPathSeparator c) (c # cs) @ CHR ''/'' # ys"
      using takeWhile_before_separator [of "c # cs" ys] dropWhile_before_separator [of "c # cs" ys]
      by simp_all
    note ih = "2.IH"(6) [OF elem refl]
    show ?thesis
      unfolding eq0 unf
      apply (simp only: a b b' c c' if_False if_True Let_def tw dw)
      using ih by simp
  qed
qed


lemma clean_loop_plain_name:
  assumes "plain_name name"
  shows "clean_loop rooted name out dotdot =
     ((if rooted \<and> length out \<noteq> 1 \<or> \<not> rooted \<and> length out \<noteq> 0 then out @ ''/'' else out) @ name,
      dotdot)"
proof -
  from assms obtain c cs where name: "name = c # cs"
    by (cases name) (auto simp: plain_name_def)
  from assms have nosep: "\<forall>x \<in> set (c # cs). \<not> isPathSeparator x"
    by (auto simp: plain_name_def name isPathSeparator_def)
  then have a: "isPathSeparator c = False"
    by simp
  have b: "(c = CHR ''.'' \<and> (cs = [] \<or> isPathSeparator (hd cs))) = False"
    using assms nosep by (cases cs) (auto simp: plain_name_def name)
  have c: "(c = CHR ''.'' \<and> hd cs = CHR ''.'' \<and> (tl cs = [] \<or> isPathSeparator (hd (tl cs)))) = False"
  proof (cases cs)
    case Nil
    with b show ?thesis by simp
  next
    case (Cons d ds)
    with assms nosep show ?thesis
      by (cases ds) (auto simp: plain_name_def name)
  qed
  have tw: "takeWhile (\<lambda>c. \<not> isPathSeparator c) (c # cs) = c # cs"
    and dw: "dropWhile (\<lambda>c. \<not> isPathSeparator c) (c # cs) = []"
    using nosep by (simp_all del: takeWhile.simps dropWhile.simps)
  show ?thesis
    unfolding name clean_loop.simps(2) [of rooted c cs out dotdot]
    by (simp only: a b c if_False Let_def tw dw clean_loop.simps(1))
qed

lemma filepath_Join_plain_name:
  assumes "plain_name name"
  shows "filepath_Join folder name = join_prefix folder @ name"
proof (cases "folder = []")
  case True
  from assms have "name \<noteq> []" "\<not> isPathSeparator (hd name)"
    by (cases name; auto simp: plain_name_def isPathSeparator_def)+
  with True assms show ?thesis
    by (simp add: filepath_Join_def filepath_Clean_def join_prefix_def clean_loop_plain_name)
next
  case False
  from assms have name: "name \<noteq> []"
    by (simp add: plain_name_def)
  show ?thesis
  proof (cases "isPathSeparator (hd folder)")
    case True
    have "clean_loop True (tl folder @ CHR ''/'' # name) ''/'' 1 =
        (case clean_loop True (tl folder) ''/'' 1 of (out', dotdot') \<Rightarrow> clean_loop True name out' dotdot')"
      by (rule clean_loop_separator)
    with True False name assms show ?thesis
      by (simp add: filepath_Join_def filepath_Clean_def join_prefix_def clean_loop_plain_name
          case_prod_beta Let_def)
  next
    case sep: False
    have "clean_loop False (folder @ CHR ''/'' # name) [] 0 =
        (case clean_loop False folder [] 0 of (out', dotdot') \<Rightarrow> clean_loop False name out' dotdot')"
      by (rule clean_loop_separator)
    with sep False name assms show ?thesis
      by (simp add: filepath_Join_def filepath_Clean_def join_prefix_def clean_loop_plain_name
          case_prod_beta Let_def)
  qed
qed

lemma distinct_filepath_Join:
  assumes "distinct names" and "\<forall>name \<in> set names. plain_name name"
  shows "distinct (map (filepath_Join folder) names)"
proof -
  have eq: "map (filepath_Join folder) names = map ((@) (join_prefix folder)) names"
    using assms(2) by (simp add: filepath_Join_plain_name)
  show ?thesis
    unfolding eq using assms(1) by (simp add: distinct_map inj_on_def)
qed

lemma names_common:
  "map getFilenameFromURL (falconCommonURLs mv) =
     [''config.json'', ''pytorch_model.bin.index.json'', ''tokenizer.json'',
      ''tokenizer_config.json'', ''special_tokens_map.json'', ''configuration_falcon.py'',
      ''generation_config.json'', ''modeling_falcon.py'']"
  by (simp add: falconCommonURLs_def getFilenameFromURL_def filepath_Base_def isPathSeparator_def Let_def)

lemma names_shards_2:
  "map getFilenameFromURL (falconModelURLs mv 2) =
     [''pytorch_model-00001-of-00002.bin'', ''pytorch_model-00002-of-00002.bin'']"
  by (simp add: falconModelURLs_2 getFilenameFromURL_def filepath_Base_def isPathSeparator_def Let_def)

lemma names_shards_9:
  "map getFilenameFromURL (falconModelURLs mv 9) =
     [''pytorch_model-00001-of-00009.bin'', ''pytorch_model-00002-of-00009.bin'',
      ''pytorch_model-00003-of-00009.bin'', ''pytorch_model-00004-of-00009.bin'',
      ''pytorch_model-00005-of-00009.bin'', ''pytorch_model-00006-of-00009.bin'',
      ''pytorch_model-00007-of-00009.bin'', ''pytorch_model-00008-of-00009.bin'',
      ''pytorch_model-00009-of-00009.bin'']"
  by (simp add: falconModelURLs_9 getFilenameFromURL_def filepath_Base_def isPathSeparator_def Let_def)

lemma names_llama:
  "getFilenameFromURL (baseURL @ mv @ ''/params.json'') = ''params.json''"
  "getFilenameFromURL (baseURL @ mv @ ''/consolidated.00.pth'') = ''consolidated.00.pth''"
  "getFilenameFromURL (baseURL @ mv @ ''/consolidated.01.pth'') = ''consolidated.01.pth''"
  "getFilenameFromURL (baseURL @ mv @ ''/consolidated.03.pth'') = ''consolidated.03.pth''"
  "getFilenameFromURL (baseURL @ mv @ ''/consolidated.04.pth'') = ''consolidated.04.pth''"
  "getFilenameFromURL (baseURL @ mv @ ''/consolidated.05.pth'') = ''consolidated.05.pth''"
  "getFilenameFromURL (baseURL @ mv @ ''/consolidated.06.pth'') = ''consolidated.06.pth''"
  "getFilenameFromURL (baseURL @ mv @ ''/consolidated.07.pth'') = ''consolidated.07.pth''"
  by (simp_all add: getFilenameFromURL_def filepath_Base_def isPathSeparator_def Let_def)


lemma names_7b_ok:
  "distinct [''pytorch_model-00001-of-00002.bin'', ''pytorch_model-00002-of-00002.bin'',
       ''config.json'', ''pytorch_model.bin.index.json'', ''tokenizer.json'',
       ''tokenizer_config.json'', ''special_tokens_map.json'', ''configuration_falcon.py'',
       ''generation_config.json'', ''modeling_falcon.py'']"
  "list_all plain_name [''pytorch_model-00001-of-00002.bin'', ''pytorch_model-00002-of-00002.bin'',
       ''config.json'', ''pytorch_model.bin.index.json'', ''tokenizer.json'',
       ''tokenizer_config.json'', ''special_tokens_map.json'', ''configuration_falcon.py'',
       ''generation_config.json'', ''modeling_falcon.py'']"
  by (simp_all add: plain_name_def)

lemma names_40b_ok:
  "distinct [''pytorch_model-00001-of-00009.bin'', ''pytorch_model-00002-of-00009.bin'',
       ''pytorch_model-00003-of-00009.bin'', ''pytorch_model-00004-of-00009.bin'',
       ''pytorch_model-00005-of-00009.bin'', ''pytorch_model-00006-of-00009.bin'',
       ''pytorch_model-00007-of-00009.bin'', ''pytorch_model-00008-of-00009.bin'',
       ''pytorch_model-00009-of-00009.bin'',
       ''config.json'', ''pytorch_model.bin.index.json'', ''tokenizer.json'',
       ''tokenizer_config.json'', ''special_tokens_map.json'', ''configuration_falcon.py'',
       ''generation_config.json'', ''modeling_falcon.py'']"
  "list_all plain_name [''pytorch_model-00001-of-00009.bin'', ''pytorch_model-00002-of-00009.bin'',
       ''pytorch_model-00003-of-00009.bin'', ''pytorch_model-00004-of-00009.bin'',
       ''pytorch_model-00005-of-00009.bin'', ''pytorch_model-00006-of-00009.bin'',
       ''pytorch_model-00007-of-00009.bin'', ''pytorch_model-00008-of-00009.bin'',
       ''pytorch_model-00009-of-00009.bin'',
       ''config.json'', ''pytorch_model.bin.index.json'', ''tokenizer.json'',
       ''tokenizer_config.json'', ''special_tokens_map.json'', ''configuration_falcon.py'',
       ''generation_config.json'', ''modeling_falcon.py'']"
  by (simp_all add: plain_name_def)

lemma names_llama_ok:
  "distinct [''consolidated.00.pth'', ''consolidated.01.pth'', ''consolidated.03.pth'',
       ''consolidated.04.pth'', ''consolidated.05.pth'', ''consolidated.06.pth'',
       ''consolidated.07.pth'', ''params.json'']"
  "list_all plain_name [''consolidated.00.pth'', ''consolidated.01.pth'', ''consolidated.03.pth'',
       ''consolidated.04.pth'', ''consolidated.05.pth'', ''consolidated.06.pth'',
       ''consolidated.07.pth'', ''params.json'']"
  by (simp_all add: plain_name_def)


lemma resolved_names_ok:
  assumes "getURLsForModel linkType baseURL modelVersion = Inr urls"
  shows "distinct (map getFilenameFromURL urls) \<and> list_all plain_name (map getFilenameFromURL urls)"
proof (cases "linkType = PublicLink")
  case public: True
  show ?thesis
  proof (cases "modelVersion = ''tiiuae/falcon-7b'' \<or> modelVersion = ''tiiuae/falcon-7b-instruct''")
    case True
    with assms public have "urls = falconModelURLs modelVersion 2 @ falconCommonURLs modelVersion"
      by (simp add: getURLsForModel_def)
    then show ?thesis
      by (simp only: map_append names_shards_2 names_common append.simps names_7b_ok simp_thms)
  next
    case not7: False
    show ?thesis
    proof (cases "modelVersion = ''tiiuae/falcon-40b'' \<or> modelVersion = ''tiiuae/falcon-40b-instruct''")
      case True
      with assms public not7 have "urls = falconModelURLs modelVersion 9 @ falconCommonURLs modelVersion"
        by (simp add: getURLsForModel_def)
      then show ?thesis
        by (simp only: map_append names_shards_9 names_common append.simps names_40b_ok simp_thms)
    next
      case False
      with assms public not7 show ?thesis
        by (simp add: getURLsForModel_def)
    qed
  qed
next
  case False
  with assms have llama: "getPrivateURLsForModel baseURL modelVersion = Inr urls"
    by (simp add: getURLsForModel_def)
  show ?thesis
  proof (cases "modelVersion = ''llama-2-7b'' \<or> modelVersion = ''llama-2-7b-chat''")
    case True
    with llama have "urls = [baseURL @ modelVersion @ ''/consolidated.00.pth'',
        baseURL @ modelVersion @ ''/params.json'']"
      by (simp add: getPrivateURLsForModel_def)
    then show ?thesis
      by (simp add: names_llama plain_name_def)
  next
    case not7: False
    show ?thesis
    proof (cases "modelVersion = ''llama-2-13b'' \<or> modelVersion = ''llama-2-13b-chat''")
      case True
      with llama not7 have "urls = [baseURL @ modelVersion @ ''/consolidated.00.pth'',
          baseURL @ modelVersion @ ''/consolidated.01.pth'',
          baseURL @ modelVersion @ ''/params.json'']"
        by (simp add: getPrivateURLsForModel_def)
      then show ?thesis
        by (simp add: names_llama plain_name_def)
    next
      case not13: False
      show ?thesis
      proof (cases "modelVersion = ''llama-2-70b'' \<or> modelVersion = ''llama-2-70b-chat''")
        case True
        with llama not7 not13 have "urls = [baseURL @ modelVersion @ ''/consolidated.00.pth'',
            baseURL @ modelVersion @ ''/consolidated.01.pth'',
            baseURL @ modelVersion @ ''/consolidated.03.pth'',
            baseURL @ modelVersion @ ''/consolidated.04.pth'',
            baseURL @ modelVersion @ ''/consolidated.05.pth'',
            baseURL @ modelVersion @ ''/consolidated.06.pth'',
            baseURL @ modelVersion @ ''/consolidated.07.pth'',
            baseURL @ modelVersion @ ''/params.json'']"
          by (simp add: getPrivateURLsForModel_def)
        then show ?thesis
          by (simp only: list.map names_llama names_llama_ok simp_thms)
      next
        case False
        with llama not7 not13 show ?thesis
          by (simp add: getPrivateURLsForModel_def)
      qed
    qed
  qed
qed

text \<open>
  C10. For every link type, base URL and model version that the resolver accepts, the
  base names of the resolved URLs are pairwise distinct, and so are the paths of the
  local files, the output directory joined with each base name, whatever the output
  directory is: the tasks of one run write to different files.
\<close>

theorem resolved_files_distinct:
  assumes "getURLsForModel linkType baseURL modelVersion = Inr urls"
  shows "distinct (map getFilenameFromURL urls)
     \<and> distinct (map (\<lambda>url. filepath_Join folderPath (getFilenameFromURL url)) urls)"
proof -
  from resolved_names_ok [OF assms]
  have names: "distinct (map getFilenameFromURL urls)"
    and plain: "\<forall>name \<in> set (map getFilenameFromURL urls). plain_name name"
    by (simp_all add: list_all_iff)
  from distinct_filepath_Join [OF names plain, of folderPath]
  have "distinct (map (\<lambda>url. filepath_Join folderPath (getFilenameFromURL url)) urls)"
    by (simp add: comp_def)
  with names show ?thesis
    by simp
qed

theorem resolved_files_distinct_witness:
  "distinct (map getFilenameFromURL
       [''http://10.0.0.1:8080/download/llama-2-7b/consolidated.00.pth'',
        ''http://10.0.0.1:8080/download/llama-2-7b/params.json''])
   \<and> distinct (map (\<lambda>url. filepath_Join ''out'' (getFilenameFromURL url))
       [''http://10.0.0.1:8080/download/llama-2-7b/consolidated.00.pth'',
        ''http://10.0.0.1:8080/download/llama-2-7b/params.json''])"
proof -
  have "getURLsForModel ''private'' ''http://10.0.0.1:8080/download/'' ''llama-2-7b'' =
      Inr [''http://10.0.0.1:8080/download/llama-2-7b/consolidated.00.pth'',
           ''http://10.0.0.1:8080/download/llama-2-7b/params.json'']"
    by code_simp
  from resolved_files_distinct [OF this, of "''out''"] show ?thesis .
qed

subsection \<open>Progress lines\<close>















subsection \<open>One task for each URL, and the barrier\<close>

lemma requests_append: "requests (xs @ ys) = requests xs @ requests ys"
  by (induction xs rule: requests.induct) simp_all

lemma set_requests: "req \<in> set (requests effs) \<longleftrightarrow> HttpDo req \<in> set effs"
  by (induction effs rule: requests.induct) auto

lemma requests_copy:
  "\<forall>e \<in> set effs. (\<exists>name n t. e = ProgressLine name n t) \<or> (\<exists>p. e = WriteFile fp p) \<Longrightarrow>
     requests effs = [] \<and> WgDone \<notin> set effs"
  by (induction effs rule: requests.induct) auto

lemma downloadFile_shape:
  "\<exists>pre. WgDone \<notin> set pre \<and> length (requests pre) \<le> 1 \<and>
     (case snd (downloadFile w folderPath url token) of
        Inr u \<Rightarrow> fst (downloadFile w folderPath url token) = pre @ [WgDone] \<and> length (requests pre) = 1
      | Inl e \<Rightarrow> fst (downloadFile w folderPath url token) = pre)"
proof -
  define fp where "fp = filepath_Join folderPath (getFilenameFromURL url)"
  show ?thesis
  proof (cases "os_Create w fp")
    case (Some err)
    then have "downloadFile w folderPath url token = ([CreateFile fp], Inl (LogFatal err))"
      by (simp add: downloadFile_def Let_def fp_def)
    then show ?thesis
      by simp
  next
    case created: None
    show ?thesis
    proof (cases "http_NewRequest w ''GET'' url")
      case (Inl err)
      with created have "downloadFile w folderPath url token = ([CreateFile fp], Inl (LogFatal err))"
        by (simp add: downloadFile_def Let_def fp_def)
      then show ?thesis
        by simp
    next
      case (Inr req0)
      define req where
        "req = (if token \<noteq> [] then Header_Add ''Authorization'' (''Bearer '' @ token) req0 else req0)"
      show ?thesis
      proof (cases "client_Do w req")
        case (Inl err)
        with created Inr
        have "downloadFile w folderPath url token = ([CreateFile fp, HttpDo req], Inl (LogFatal err))"
          by (simp add: downloadFile_def Let_def fp_def req_def)
        then show ?thesis
          by simp
      next
        case resp: (Inr resp)
        obtain wc' effs err where copy:
          "io_Copy w fp \<lparr>wc_filename = fp, wc_total = ContentLength resp, wc_read = 0, wc_lastReported = 0\<rparr>
             (Body resp) (BodyErr resp) = (wc', effs, err)"
          using prod_cases3 by blast
        from requests_copy [OF io_Copy_effects [OF copy]]
        have effs: "requests effs = []" "WgDone \<notin> set effs"
          by simp_all
        have unfolded: "downloadFile w folderPath url token =
            (case err of
               Some e \<Rightarrow> ([CreateFile fp, HttpDo req] @ effs, Inl (LogFatal e))
             | None \<Rightarrow> ([CreateFile fp, HttpDo req] @ effs @ [CloseBody, CloseFile fp, WgDone], Inr ()))"
          using created Inr resp copy
          by (simp add: downloadFile_def Let_def fp_def [symmetric] req_def [symmetric]
              split: option.splits)
        show ?thesis
        proof (cases err)
          case None
          with unfolded effs show ?thesis
            by (intro exI [of _ "[CreateFile fp, HttpDo req] @ effs @ [CloseBody, CloseFile fp]"])
               (simp add: requests_append)
        next
          case (Some e)
          with unfolded effs show ?thesis
            by (intro exI [of _ "[CreateFile fp, HttpDo req] @ effs"]) (simp add: requests_append)
        qed
      qed
    qed
  qed
qed

lemma downloadFile_one_request: "length (requests (fst (downloadFile w folderPath url token))) \<le> 1"
  using downloadFile_shape [of w folderPath url token]
  by (cases "snd (downloadFile w folderPath url token)") (auto simp: requests_append)

lemma downloadFile_success_request:
  "snd (downloadFile w folderPath url token) = Inr () \<Longrightarrow>
     \<exists>req. HttpDo req \<in> set (fst (downloadFile w folderPath url token))"
proof -
  assume ok: "snd (downloadFile w folderPath url token) = Inr ()"
  with downloadFile_shape [of w folderPath url token]
  have "length (requests (fst (downloadFile w folderPath url token))) = 1"
    by (auto simp: requests_append)
  then obtain req where "req \<in> set (requests (fst (downloadFile w folderPath url token)))"
    by (cases "requests (fst (downloadFile w folderPath url token))") auto
  then show ?thesis
    by (auto simp: set_requests)
qed

lemma downloadFile_WgDone_last:
  assumes "n < length (fst (downloadFile w folderPath url token))"
    and "fst (downloadFile w folderPath url token) ! n = WgDone"
  shows "WgDone \<notin> set (take n (fst (downloadFile w folderPath url token)))"
proof -
  from downloadFile_shape [of w folderPath url token] obtain pre where pre: "WgDone \<notin> set pre"
    and shape: "case snd (downloadFile w folderPath url token) of
        Inr u \<Rightarrow> fst (downloadFile w folderPath url token) = pre @ [WgDone] \<and> length (requests pre) = 1
      | Inl e \<Rightarrow> fst (downloadFile w folderPath url token) = pre"
    by blast
  show ?thesis
  proof (cases "snd (downloadFile w folderPath url token)")
    case (Inl e)
    with shape assms pre show ?thesis
      by (metis nth_mem sum.simps(5))
  next
    case (Inr u)
    with shape have effs: "fst (downloadFile w folderPath url token) = pre @ [WgDone]"
      by simp
    with assms pre have "n = length pre"
      by (metis length_append_singleton less_Suc_eq nth_append nth_mem)
    with effs pre show ?thesis
      by simp
  qed
qed

lemma downloadFile_WgDone_done:
  assumes "WgDone \<in> set (take n (fst (downloadFile w folderPath url token)))"
  shows "snd (downloadFile w folderPath url token) = Inr ()
     \<and> length (fst (downloadFile w folderPath url token)) \<le> n"
proof -
  from downloadFile_shape [of w folderPath url token] obtain pre where pre: "WgDone \<notin> set pre"
    and shape: "case snd (downloadFile w folderPath url token) of
        Inr u \<Rightarrow> fst (downloadFile w folderPath url token) = pre @ [WgDone] \<and> length (requests pre) = 1
      | Inl e \<Rightarrow> fst (downloadFile w folderPath url token) = pre"
    by blast
  from assms have mem: "WgDone \<in> set (fst (downloadFile w folderPath url token))"
    by (rule in_set_takeD)
  show ?thesis
  proof (cases "snd (downloadFile w folderPath url token)")
    case (Inl e)
    with shape mem pre show ?thesis
      by simp
  next
    case (Inr u)
    with shape have effs: "fst (downloadFile w folderPath url token) = pre @ [WgDone]"
      by simp
    have "length pre < n"
    proof (rule ccontr)
      assume "\<not> length pre < n"
      then have "take n (pre @ [WgDone]) = take n pre"
        by simp
      with assms effs pre show False
        by (auto dest: in_set_takeD)
    qed
    with effs Inr show ?thesis
      by simp
  qed
qed

lemma downloadFile_request_once:
  assumes "n < length (fst (downloadFile w folderPath url token))"
    and "fst (downloadFile w folderPath url token) ! n = HttpDo req"
  shows "HttpDo req' \<notin> set (take n (fst (downloadFile w folderPath url token)))"
proof
  let ?effs = "fst (downloadFile w folderPath url token)"
  assume "HttpDo req' \<in> set (take n ?effs)"
  then have "requests (take n ?effs) \<noteq> []"
    by (auto simp: set_requests [symmetric])
  moreover have "?effs = take n ?effs @ HttpDo req # drop (Suc n) ?effs"
    using assms by (metis id_take_nth_drop)
  then have "requests ?effs = requests (take n ?effs) @ req # requests (drop (Suc n) ?effs)"
    by (metis requests_append requests.simps(2))
  ultimately have "2 \<le> length (requests ?effs)"
    by (cases "requests (take n ?effs)") simp_all
  with downloadFile_one_request [of w folderPath url token] show False
    by simp
qed

lemma filter_update_same:
  "i < length xs \<Longrightarrow> P (xs ! i) = P y \<Longrightarrow> length (filter P (xs[i := y])) = length (filter P xs)"
proof (induction xs arbitrary: i)
  case Nil
  then show ?case by simp
next
  case (Cons x xs)
  then show ?case
    by (cases i) simp_all
qed

lemma filter_update_drop:
  "i < length xs \<Longrightarrow> P (xs ! i) \<Longrightarrow> \<not> P y \<Longrightarrow>
     Suc (length (filter P (xs[i := y]))) = length (filter P xs)"
proof (induction xs arbitrary: i)
  case Nil
  then show ?case by simp
next
  case (Cons x xs)
  then show ?case
    by (cases i) simp_all
qed

lemma step_MainStep:
  "step w outputDirectory token s MainStep = Some s' \<Longrightarrow>
     exited s = None \<and>
     (case pc s of
        LoopAdd [] \<Rightarrow> s' = s\<lparr>pc := Waiting\<rparr>
      | LoopAdd (url # urls) \<Rightarrow> s' = s\<lparr>pc := LoopGo url urls, wg := wg s + 1\<rparr>
      | LoopGo url urls \<Rightarrow> s' = s\<lparr>pc := LoopAdd urls, tasks := tasks s @ [(url, Running 0)]\<rparr>
      | Waiting \<Rightarrow> wg s = 0 \<and> s' = s\<lparr>pc := Returned, exited := Some ExitMain\<rparr>
      | Returned \<Rightarrow> False)"
  by (simp add: step_def split: if_splits main_pc.splits list.splits)

lemma step_TaskStep:
  "step w outputDirectory token s (TaskStep i) = Some s' \<Longrightarrow>
     exited s = None \<and> i < length (tasks s) \<and>
     (case snd (tasks s ! i) of
        Running n \<Rightarrow>
          (if n < length (fst (downloadFile w outputDirectory (fst (tasks s ! i)) token)) then
             s' = s\<lparr>tasks := (tasks s)[i := (fst (tasks s ! i), Running (Suc n))],
                    effects := effects s
                      @ [(i, fst (downloadFile w outputDirectory (fst (tasks s ! i)) token) ! n)],
                    wg := (if fst (downloadFile w outputDirectory (fst (tasks s ! i)) token) ! n = WgDone
                           then wg s - 1 else wg s)\<rparr>
           else
             (case snd (downloadFile w outputDirectory (fst (tasks s ! i)) token) of
                Inr u \<Rightarrow> s' = s\<lparr>tasks := (tasks s)[i := (fst (tasks s ! i), Finished)]\<rparr>
              | Inl e \<Rightarrow> s' = s\<lparr>tasks := (tasks s)[i := (fst (tasks s ! i), InFatal e)]\<rparr>))
      | InFatal e \<Rightarrow> s' = s\<lparr>exited := Some (ExitFatal e)\<rparr>
      | Finished \<Rightarrow> False)"
  by (simp add: step_def Let_def split: if_splits sum.splits task_state.splits)

lemma map_fst_update: "i < length ts \<Longrightarrow> map fst (ts[i := (fst (ts ! i), st)]) = map fst ts"
  by (simp add: map_update list_update_same_conv)

lemma emitted_Running_0 [simp]: "emitted w d t (u, Running 0) = []"
  by (simp add: emitted_def)

lemma emitted_Suc:
  "n < length (fst (downloadFile w d u t)) \<Longrightarrow>
     emitted w d t (u, Running (Suc n)) = emitted w d t (u, Running n) @ [fst (downloadFile w d u t) ! n]"
  by (simp add: emitted_def take_Suc_conv_app_nth)

lemma emitted_all:
  "\<not> n < length (fst (downloadFile w d u t)) \<Longrightarrow> st = Finished \<or> st = InFatal e \<Longrightarrow>
     emitted w d t (u, st) = emitted w d t (u, Running n)"
  by (auto simp: emitted_def)

lemma invariant_start: "invariant w d t urls (start urls)"
  by (simp add: invariant_def start_def)

text \<open>The step of a task, as a change of one task and of nothing else but what is named.\<close>

lemma invariant_task_update:
  assumes inv: "invariant w d t urls s"
    and i: "i < length (tasks s)"
    and s': "s' = s\<lparr>tasks := (tasks s)[i := (fst (tasks s ! i), st)], effects := effs', wg := wg'\<rparr>"
    and alive: "exited s = None"
    and count: "wg' - wg s =
        int (length (filter (\<lambda>task. WgDone \<notin> set (emitted w d t task))
              ((tasks s)[i := (fst (tasks s ! i), st)])))
        - int (length (filter (\<lambda>task. WgDone \<notin> set (emitted w d t task)) (tasks s)))"
    and fatal: "\<And>e. st = InFatal e \<Longrightarrow> snd (downloadFile w d (fst (tasks s ! i)) t) = Inl e"
    and finished: "st = Finished \<Longrightarrow> snd (downloadFile w d (fst (tasks s ! i)) t) = Inr ()"
  shows "invariant w d t urls s'"
proof -
  have fsts: "fst ((tasks s)[i := (fst (tasks s ! i), st)] ! k) = fst (tasks s ! k)" for k
    using i by (cases "k = i") simp_all
  have snds: "snd ((tasks s)[i := (fst (tasks s ! i), st)] ! k) = (if k = i then st else snd (tasks s ! k))"
    if "k < length (tasks s)" for k
    using that by (simp add: nth_list_update)
  from inv have 1: "map fst (tasks s) @ pending (pc s) = urls"
    and 2: "wg s = int (length (filter (\<lambda>task. WgDone \<notin> set (emitted w d t task)) (tasks s)))
              + (case pc s of LoopGo url rest \<Rightarrow> 1 | _ \<Rightarrow> 0)"
    and 5: "\<forall>k < length (tasks s). \<forall>e. snd (tasks s ! k) = InFatal e \<longrightarrow>
            snd (downloadFile w d (fst (tasks s ! k)) t) = Inl e"
    and 6: "\<forall>k < length (tasks s). snd (tasks s ! k) = Finished \<longrightarrow>
            snd (downloadFile w d (fst (tasks s ! k)) t) = Inr ()"
    unfolding invariant_def by blast+
  have "map fst (tasks s') @ pending (pc s') = urls"
    using 1 i by (simp add: s' map_fst_update)
  moreover have "wg s' = int (length (filter (\<lambda>task. WgDone \<notin> set (emitted w d t task)) (tasks s')))
              + (case pc s' of LoopGo url rest \<Rightarrow> 1 | _ \<Rightarrow> 0)"
    using 2 count by (simp add: s')
  moreover have "exited s' = None"
    using alive by (simp add: s')
  moreover have "\<forall>k < length (tasks s'). \<forall>e. snd (tasks s' ! k) = InFatal e \<longrightarrow>
            snd (downloadFile w d (fst (tasks s' ! k)) t) = Inl e"
    using 5 fatal by (simp add: s' fsts snds)
  moreover have "\<forall>k < length (tasks s'). snd (tasks s' ! k) = Finished \<longrightarrow>
            snd (downloadFile w d (fst (tasks s' ! k)) t) = Inr ()"
    using 6 finished by (simp add: s' fsts snds)
  ultimately show ?thesis
    unfolding invariant_def by simp
qed

lemma invariant_step:
  assumes st: "step w d t s c = Some s'" and inv: "invariant w d t urls s"
  shows "invariant w d t urls s'"
proof (cases c)
  case MainStep
  note m = step_MainStep [OF st [unfolded MainStep]]
  show ?thesis
  proof (cases "pc s")
    case (LoopAdd us)
    show ?thesis
    proof (cases us)
      case Nil
      with m LoopAdd have "s' = s\<lparr>pc := Waiting\<rparr>" "exited s = None"
        by simp_all
      with inv LoopAdd Nil show ?thesis
        by (simp add: invariant_def)
    next
      case (Cons u rest)
      with m LoopAdd have "s' = s\<lparr>pc := LoopGo u rest, wg := wg s + 1\<rparr>" "exited s = None"
        by simp_all
      with inv LoopAdd Cons show ?thesis
        by (simp add: invariant_def)
    qed
  next
    case (LoopGo u us)
    with m have s': "s' = s\<lparr>pc := LoopAdd us, tasks := tasks s @ [(u, Running 0)]\<rparr>"
      and alive: "exited s = None"
      by simp_all
    have nth: "(tasks s @ [(u, Running 0)]) ! k = (if k < length (tasks s) then tasks s ! k else (u, Running 0))"
      if "k < Suc (length (tasks s))" for k
      using that by (auto simp: nth_append less_Suc_eq)
    from inv LoopGo alive show ?thesis
      unfolding s' invariant_def by (simp add: nth less_Suc_eq)
  next
    case Waiting
    with m have "s' = s\<lparr>pc := Returned, exited := Some ExitMain\<rparr>" "wg s = 0"
      by simp_all
    with inv Waiting show ?thesis
      by (simp add: invariant_def)
  next
    case Returned
    with m show ?thesis
      by simp
  qed
next
  case (TaskStep i)
  note ts = step_TaskStep [OF st [unfolded TaskStep]]
  then have alive: "exited s = None" and i: "i < length (tasks s)"
    by simp_all
  define u where "u = fst (tasks s ! i)"
  define effs where "effs = fst (downloadFile w d u t)"
  let ?P = "\<lambda>task. WgDone \<notin> set (emitted w d t task)"
  show ?thesis
  proof (cases "snd (tasks s ! i)")
    case (Running n)
    then have task: "tasks s ! i = (u, Running n)"
      by (simp add: u_def prod_eq_iff)
    show ?thesis
    proof (cases "n < length effs")
      case True
      with ts Running
      have s': "s' = s\<lparr>tasks := (tasks s)[i := (fst (tasks s ! i), Running (Suc n))],
                    effects := effects s @ [(i, effs ! n)],
                    wg := (if effs ! n = WgDone then wg s - 1 else wg s)\<rparr>"
        by (simp add: effs_def u_def)
      have new: "emitted w d t (u, Running (Suc n)) = emitted w d t (u, Running n) @ [effs ! n]"
        using True by (simp add: emitted_Suc effs_def)
      have count: "(if effs ! n = WgDone then wg s - 1 else wg s) - wg s =
          int (length (filter ?P ((tasks s)[i := (fst (tasks s ! i), Running (Suc n))])))
          - int (length (filter ?P (tasks s)))"
      proof (cases "effs ! n = WgDone")
        case last: True
        have "?P (tasks s ! i)"
          using downloadFile_WgDone_last [of n w d u t] True last
          by (simp add: task emitted_def effs_def)
        moreover have "\<not> ?P (u, Running (Suc n))"
          using last by (simp add: new)
        ultimately have "Suc (length (filter ?P ((tasks s)[i := (u, Running (Suc n))])))
            = length (filter ?P (tasks s))"
          using i by (intro filter_update_drop) simp_all
        with last show ?thesis
          by (simp add: u_def)
      next
        case False
        then have "?P (tasks s ! i) = ?P (u, Running (Suc n))"
          by (simp add: task new)
        then have "length (filter ?P ((tasks s)[i := (u, Running (Suc n))]))
            = length (filter ?P (tasks s))"
          using i by (intro filter_update_same) simp_all
        with False show ?thesis
          by (simp add: u_def)
      qed
      show ?thesis
        by (rule invariant_task_update [OF inv i s' alive count]) simp_all
    next
      case False
      show ?thesis
      proof (cases "snd (downloadFile w d u t)")
        case (Inr x)
        with ts Running False
        have s': "s' = s\<lparr>tasks := (tasks s)[i := (fst (tasks s ! i), Finished)],
            effects := effects s, wg := wg s\<rparr>"
          by (simp add: effs_def u_def)
        have "?P (tasks s ! i) = ?P (u, Finished)"
          using emitted_all [of n w d u t Finished] False by (simp add: task effs_def)
        then have "length (filter ?P ((tasks s)[i := (u, Finished)])) = length (filter ?P (tasks s))"
          using i by (intro filter_update_same) simp_all
        then have count: "wg s - wg s =
          int (length (filter ?P ((tasks s)[i := (fst (tasks s ! i), Finished)])))
          - int (length (filter ?P (tasks s)))"
          by (simp add: u_def)
        show ?thesis
          using Inr by (intro invariant_task_update [OF inv i s' alive count]) (simp_all add: u_def)
      next
        case (Inl e)
        with ts Running False
        have s': "s' = s\<lparr>tasks := (tasks s)[i := (fst (tasks s ! i), InFatal e)],
            effects := effects s, wg := wg s\<rparr>"
          by (simp add: effs_def u_def)
        have "?P (tasks s ! i) = ?P (u, InFatal e)"
          using emitted_all [of n w d u t "InFatal e" e] False by (simp add: task effs_def)
        then have "length (filter ?P ((tasks s)[i := (u, InFatal e)])) = length (filter ?P (tasks s))"
          using i by (intro filter_update_same) simp_all
        then have count: "wg s - wg s =
          int (length (filter ?P ((tasks s)[i := (fst (tasks s ! i), InFatal e)])))
          - int (length (filter ?P (tasks s)))"
          by (simp add: u_def)
        show ?thesis
          using Inl by (intro invariant_task_update [OF inv i s' alive count]) (simp_all add: u_def)
      qed
    qed
  next
    case (InFatal e)
    with ts have s': "s' = s\<lparr>exited := Some (ExitFatal e)\<rparr>"
      by simp
    from inv i InFatal show ?thesis
      unfolding s' invariant_def by auto
  next
    case Finished
    with ts show ?thesis
      by simp
  qed
qed

lemma invariant_run:
  "run w d t s schedule = Some s' \<Longrightarrow> invariant w d t urls s \<Longrightarrow> invariant w d t urls s'"
proof (induction schedule arbitrary: s)
  case Nil
  then show ?case by simp
next
  case (Cons c cs)
  then show ?case
    by (auto split: option.splits dest: invariant_step)
qed

lemma fetched_append: "fetched (xs @ ys) = fetched xs @ fetched ys"
  by (simp add: fetched_def requests_append)

lemma fetched_single:
  "fetched [(i, e)] = (case e of HttpDo req \<Rightarrow> [URL req] | _ \<Rightarrow> [])"
  by (cases e) (simp_all add: fetched_def)

lemma fetch_invariant_start: "fetch_invariant w d t (start urls)"
  by (simp add: fetch_invariant_def start_def fetched_def)

lemma fetch_invariant_task_update:
  assumes inv: "fetch_invariant w d t s"
    and i: "i < length (tasks s)"
    and s': "s' = s\<lparr>tasks := (tasks s)[i := (fst (tasks s ! i), st)], effects := effs', wg := wg'\<rparr>"
    and grows: "set (emitted w d t (tasks s ! i)) \<subseteq> set (emitted w d t (fst (tasks s ! i), st))"
    and fetch: "fetched effs' = fetched (effects s) @ us"
    and new: "\<forall>u \<in> set us. u = fst (tasks s ! i)
        \<and> (\<exists>req. HttpDo req \<in> set (emitted w d t (fst (tasks s ! i), st)))
        \<and> u \<notin> set (fetched (effects s))"
    and once: "distinct us"
    and all: "\<forall>req. HttpDo req \<in> set (emitted w d t (fst (tasks s ! i), st)) \<longrightarrow>
        HttpDo req \<in> set (emitted w d t (tasks s ! i)) \<or> URL req \<in> set us"
  shows "fetch_invariant w d t s'"
proof -
  let ?ts' = "(tasks s)[i := (fst (tasks s ! i), st)]"
  from inv have 1: "distinct (fetched (effects s))"
    and 2: "\<forall>u \<in> set (fetched (effects s)). \<exists>k < length (tasks s).
            fst (tasks s ! k) = u \<and> (\<exists>req. HttpDo req \<in> set (emitted w d t (tasks s ! k)))"
    and 3: "\<forall>k < length (tasks s). \<forall>req.
            HttpDo req \<in> set (emitted w d t (tasks s ! k)) \<longrightarrow> URL req \<in> set (fetched (effects s))"
    unfolding fetch_invariant_def by blast+
  have fsts: "fst (?ts' ! k) = fst (tasks s ! k)" for k
    using i by (cases "k = i") simp_all
  have em: "set (emitted w d t (tasks s ! k)) \<subseteq> set (emitted w d t (?ts' ! k))" if "k < length (tasks s)" for k
    using that grows by (cases "k = i") simp_all
  have d: "distinct (fetched effs')"
    using 1 once new by (auto simp: fetch)
  have b: "\<exists>k < length ?ts'. fst (?ts' ! k) = u \<and> (\<exists>req. HttpDo req \<in> set (emitted w d t (?ts' ! k)))"
    if "u \<in> set (fetched effs')" for u
  proof (cases "u \<in> set (fetched (effects s))")
    case True
    with 2 obtain k req where "k < length (tasks s)" "fst (tasks s ! k) = u"
      "HttpDo req \<in> set (emitted w d t (tasks s ! k))"
      by blast
    with em [of k] fsts [of k] show ?thesis
      by auto
  next
    case False
    with that have "u \<in> set us"
      by (simp add: fetch)
    with new have "u = fst (tasks s ! i)"
      and "\<exists>req. HttpDo req \<in> set (emitted w d t (fst (tasks s ! i), st))"
      by blast+
    with i show ?thesis
      by (intro exI [of _ i]) (simp add: fsts)
  qed
  have c: "URL req \<in> set (fetched effs')"
    if "k < length ?ts'" "HttpDo req \<in> set (emitted w d t (?ts' ! k))" for k req
  proof (cases "k = i")
    case True
    with that i all have "HttpDo req \<in> set (emitted w d t (tasks s ! i)) \<or> URL req \<in> set us"
      by simp
    with 3 i show ?thesis
      by (auto simp: fetch)
  next
    case False
    with that 3 show ?thesis
      by (auto simp: fetch)
  qed
  from d b c show ?thesis
    unfolding fetch_invariant_def s' by simp
qed

lemma fetch_invariant_step:
  assumes st: "step w d t s c = Some s'" and inv: "invariant w d t urls s"
    and dist: "distinct urls" and f: "fetch_invariant w d t s"
  shows "fetch_invariant w d t s'"
proof (cases c)
  case MainStep
  note m = step_MainStep [OF st [unfolded MainStep]]
  show ?thesis
  proof (cases "pc s")
    case (LoopAdd us)
    with m f show ?thesis
      by (cases us) (auto simp: fetch_invariant_def)
  next
    case (LoopGo u us)
    with m have s': "s' = s\<lparr>pc := LoopAdd us, tasks := tasks s @ [(u, Running 0)]\<rparr>"
      by simp
    have nth: "(tasks s @ [(u, Running 0)]) ! k = (if k < length (tasks s) then tasks s ! k else (u, Running 0))"
      if "k < Suc (length (tasks s))" for k
      using that by (auto simp: nth_append less_Suc_eq)
    from f have 1: "distinct (fetched (effects s))"
      and 2: "\<forall>u \<in> set (fetched (effects s)). \<exists>k < length (tasks s).
            fst (tasks s ! k) = u \<and> (\<exists>req. HttpDo req \<in> set (emitted w d t (tasks s ! k)))"
      and 3: "\<forall>k < length (tasks s). \<forall>req.
            HttpDo req \<in> set (emitted w d t (tasks s ! k)) \<longrightarrow> URL req \<in> set (fetched (effects s))"
      unfolding fetch_invariant_def by blast+
    have "\<exists>k < Suc (length (tasks s)). fst ((tasks s @ [(u, Running 0)]) ! k) = v
        \<and> (\<exists>req. HttpDo req \<in> set (emitted w d t ((tasks s @ [(u, Running 0)]) ! k)))"
      if "v \<in> set (fetched (effects s))" for v
    proof -
      from 2 that obtain k req where k: "k < length (tasks s)" "fst (tasks s ! k) = v"
        "HttpDo req \<in> set (emitted w d t (tasks s ! k))"
        by blast
      then show ?thesis
        by (intro exI [of _ k]) (auto simp: nth_append)
    qed
    moreover have "URL req \<in> set (fetched (effects s))"
      if "k < Suc (length (tasks s))"
        "HttpDo req \<in> set (emitted w d t ((tasks s @ [(u, Running 0)]) ! k))" for k req
      using that 3 by (cases "k < length (tasks s)") (auto simp: nth_append)
    ultimately show ?thesis
      unfolding s' fetch_invariant_def using 1 by simp
  next
    case Waiting
    with m f show ?thesis
      by (auto simp: fetch_invariant_def)
  next
    case Returned
    with m show ?thesis
      by simp
  qed
next
  case (TaskStep i)
  note ts = step_TaskStep [OF st [unfolded TaskStep]]
  then have i: "i < length (tasks s)"
    by simp
  define u where "u = fst (tasks s ! i)"
  define effs where "effs = fst (downloadFile w d u t)"
  from inv dist have urls: "distinct (map fst (tasks s))"
    unfolding invariant_def by (metis distinct_append)
  from f have known: "\<forall>v \<in> set (fetched (effects s)). \<exists>k < length (tasks s).
            fst (tasks s ! k) = v \<and> (\<exists>req. HttpDo req \<in> set (emitted w d t (tasks s ! k)))"
    unfolding fetch_invariant_def by blast
  show ?thesis
  proof (cases "snd (tasks s ! i)")
    case (Running n)
    then have task: "tasks s ! i = (u, Running n)"
      by (simp add: u_def prod_eq_iff)
    show ?thesis
    proof (cases "n < length effs")
      case True
      with ts Running
      have s': "s' = s\<lparr>tasks := (tasks s)[i := (fst (tasks s ! i), Running (Suc n))],
                    effects := effects s @ [(i, effs ! n)],
                    wg := (if effs ! n = WgDone then wg s - 1 else wg s)\<rparr>"
        by (simp add: effs_def u_def)
      have new: "emitted w d t (u, Running (Suc n)) = emitted w d t (u, Running n) @ [effs ! n]"
        using True by (simp add: emitted_Suc effs_def)
      have old: "emitted w d t (u, Running n) = take n effs"
        by (simp add: emitted_def effs_def)
      have fresh: "URL req = u \<and> u \<notin> set (fetched (effects s))" if e: "effs ! n = HttpDo req" for req
      proof
        from True e have "HttpDo req \<in> set (fst (downloadFile w d u t))"
          unfolding effs_def by (metis nth_mem)
        from downloadFile_HttpDo [OF this] show "URL req = u"
          by simp
        show "u \<notin> set (fetched (effects s))"
        proof
          assume "u \<in> set (fetched (effects s))"
          with known obtain k req' where k: "k < length (tasks s)" "fst (tasks s ! k) = u"
            "HttpDo req' \<in> set (emitted w d t (tasks s ! k))"
            by blast
          from k(1,2) i urls have "k = i"
            unfolding u_def distinct_conv_nth by (metis length_map nth_map)
          with k(3) have "HttpDo req' \<in> set (take n effs)"
            by (simp add: task old)
          with downloadFile_request_once [of n w d u t req req'] True e show False
            by (simp add: effs_def)
        qed
      qed
      show ?thesis
      proof (rule fetch_invariant_task_update [OF f i s', where us = "fetched [(i, effs ! n)]"])
        show "set (emitted w d t (tasks s ! i)) \<subseteq> set (emitted w d t (fst (tasks s ! i), Running (Suc n)))"
          by (auto simp: task new)
        show "fetched (effects s @ [(i, effs ! n)]) = fetched (effects s) @ fetched [(i, effs ! n)]"
          by (rule fetched_append)
        show "\<forall>v \<in> set (fetched [(i, effs ! n)]). v = fst (tasks s ! i)
            \<and> (\<exists>req. HttpDo req \<in> set (emitted w d t (fst (tasks s ! i), Running (Suc n))))
            \<and> v \<notin> set (fetched (effects s))"
          using fresh by (cases "effs ! n") (auto simp: fetched_single task new)
        show "distinct (fetched [(i, effs ! n)])"
          by (cases "effs ! n") (simp_all add: fetched_single)
        show "\<forall>req. HttpDo req \<in> set (emitted w d t (fst (tasks s ! i), Running (Suc n))) \<longrightarrow>
            HttpDo req \<in> set (emitted w d t (tasks s ! i)) \<or> URL req \<in> set (fetched [(i, effs ! n)])"
          by (auto simp: task new fetched_single)
      qed
    next
      case False
      have same: "emitted w d t (u, st) = emitted w d t (tasks s ! i)"
        if "st = Finished \<or> st = InFatal e" for st e
        using emitted_all [of n w d u t st e] False that by (simp add: task effs_def)
      obtain st where s': "s' = s\<lparr>tasks := (tasks s)[i := (fst (tasks s ! i), st)],
            effects := effects s, wg := wg s\<rparr>"
        and st: "st = Finished \<or> (\<exists>e. st = InFatal e)"
        using ts Running False
        by (cases "snd (downloadFile w d u t)") (auto simp: effs_def u_def)
      from st same have eq: "emitted w d t (fst (tasks s ! i), st) = emitted w d t (tasks s ! i)"
        unfolding u_def by blast
      show ?thesis
        by (rule fetch_invariant_task_update [OF f i s', where us = "[]"]) (simp_all add: eq)
    qed
  next
    case (InFatal e)
    with ts f show ?thesis
      by (auto simp: fetch_invariant_def)
  next
    case Finished
    with ts show ?thesis
      by simp
  qed
qed

lemma invariants_run:
  "run w d t s schedule = Some s' \<Longrightarrow> distinct urls \<Longrightarrow>
     invariant w d t urls s \<Longrightarrow> fetch_invariant w d t s \<Longrightarrow>
     invariant w d t urls s' \<and> fetch_invariant w d t s'"
proof (induction schedule arbitrary: s)
  case Nil
  then show ?case by simp
next
  case (Cons c cs)
  from Cons.prems(1) obtain s1 where s1: "step w d t s c = Some s1" "run w d t s1 cs = Some s'"
    by (auto split: option.splits)
  from invariant_step [OF s1(1) Cons.prems(3)]
    fetch_invariant_step [OF s1(1) Cons.prems(3) Cons.prems(2) Cons.prems(4)]
  show ?case
    by (intro Cons.IH [OF s1(2) Cons.prems(2)])
qed

lemma trace_invariant_start: "trace_invariant w d t (start urls)"
  by (simp add: trace_invariant_def start_def)

lemma trace_invariant_task_update:
  assumes inv: "trace_invariant w d t s"
    and i: "i < length (tasks s)"
    and s': "s' = s\<lparr>tasks := (tasks s)[i := (fst (tasks s ! i), st)], effects := effects s @ new, wg := wg'\<rparr>"
    and new: "\<forall>je \<in> set new. fst je = i"
    and grows: "emitted w d t (fst (tasks s ! i), st) = emitted w d t (tasks s ! i) @ map snd new"
  shows "trace_invariant w d t s'"
proof -
  from inv have 1: "\<forall>je \<in> set (effects s). fst je < length (tasks s)"
    and 2: "\<forall>k < length (tasks s).
           map snd (filter (\<lambda>je. fst je = k) (effects s)) = emitted w d t (tasks s ! k)"
    unfolding trace_invariant_def by blast+
  have mine: "filter (\<lambda>je. fst je = i) new = new"
    using new by (simp add: filter_id_conv)
  have others: "filter (\<lambda>je. fst je = k) new = []" if "k \<noteq> i" for k
    using new that by (auto simp: filter_empty_conv)
  have "map snd (filter (\<lambda>je. fst je = k) (effects s @ new))
      = emitted w d t ((tasks s)[i := (fst (tasks s ! i), st)] ! k)"
    if "k < length (tasks s)" for k
    using that 2 grows i by (cases "k = i") (simp_all add: mine others)
  moreover have "\<forall>je \<in> set (effects s @ new). fst je < length (tasks s)"
    using 1 new i by auto
  ultimately show ?thesis
    unfolding trace_invariant_def s' by simp
qed

lemma trace_invariant_step:
  assumes st: "step w d t s c = Some s'" and inv: "trace_invariant w d t s"
  shows "trace_invariant w d t s'"
proof (cases c)
  case MainStep
  note m = step_MainStep [OF st [unfolded MainStep]]
  show ?thesis
  proof (cases "pc s")
    case (LoopAdd us)
    with m inv show ?thesis
      by (cases us) (auto simp: trace_invariant_def)
  next
    case (LoopGo u us)
    with m have s': "s' = s\<lparr>pc := LoopAdd us, tasks := tasks s @ [(u, Running 0)]\<rparr>"
      by simp
    from inv have 1: "\<forall>je \<in> set (effects s). fst je < length (tasks s)"
      and 2: "\<forall>k < length (tasks s).
           map snd (filter (\<lambda>je. fst je = k) (effects s)) = emitted w d t (tasks s ! k)"
      unfolding trace_invariant_def by blast+
    from 1 have none: "filter (\<lambda>je. fst je = length (tasks s)) (effects s) = []"
      by (auto simp: filter_empty_conv)
    have "map snd (filter (\<lambda>je. fst je = k) (effects s))
        = emitted w d t ((tasks s @ [(u, Running 0)]) ! k)"
      if "k < Suc (length (tasks s))" for k
      using that 2 none by (cases "k < length (tasks s)") (auto simp: nth_append less_Suc_eq)
    moreover from 1 have "\<forall>je \<in> set (effects s). fst je < Suc (length (tasks s))"
      by auto
    ultimately show ?thesis
      unfolding trace_invariant_def s' by simp
  next
    case Waiting
    with m inv show ?thesis
      by (auto simp: trace_invariant_def)
  next
    case Returned
    with m show ?thesis
      by simp
  qed
next
  case (TaskStep i)
  note ts = step_TaskStep [OF st [unfolded TaskStep]]
  then have i: "i < length (tasks s)"
    by simp
  define u where "u = fst (tasks s ! i)"
  define effs where "effs = fst (downloadFile w d u t)"
  show ?thesis
  proof (cases "snd (tasks s ! i)")
    case (Running n)
    then have task: "tasks s ! i = (u, Running n)"
      by (simp add: u_def prod_eq_iff)
    show ?thesis
    proof (cases "n < length effs")
      case True
      with ts Running
      have s': "s' = s\<lparr>tasks := (tasks s)[i := (fst (tasks s ! i), Running (Suc n))],
                    effects := effects s @ [(i, effs ! n)],
                    wg := (if effs ! n = WgDone then wg s - 1 else wg s)\<rparr>"
        by (simp add: effs_def u_def)
      have new: "emitted w d t (u, Running (Suc n)) = emitted w d t (u, Running n) @ [effs ! n]"
        using True by (simp add: emitted_Suc effs_def)
      show ?thesis
        by (rule trace_invariant_task_update [OF inv i s']) (simp_all add: task new)
    next
      case False
      have same: "emitted w d t (u, st) = emitted w d t (tasks s ! i)"
        if "st = Finished \<or> st = InFatal e" for st e
        using emitted_all [of n w d u t st e] False that by (simp add: task effs_def)
      obtain st where s': "s' = s\<lparr>tasks := (tasks s)[i := (fst (tasks s ! i), st)],
            effects := effects s @ [], wg := wg s\<rparr>"
        and st: "st = Finished \<or> (\<exists>e. st = InFatal e)"
        using ts Running False
        by (cases "snd (downloadFile w d u t)") (auto simp: effs_def u_def)
      from st same have eq: "emitted w d t (fst (tasks s ! i), st) = emitted w d t (tasks s ! i)"
        unfolding u_def by blast
      show ?thesis
        by (rule trace_invariant_task_update [OF inv i s']) (simp_all add: eq)
    qed
  next
    case (InFatal e)
    with ts inv show ?thesis
      by (auto simp: trace_invariant_def)
  next
    case Finished
    with ts show ?thesis
      by simp
  qed
qed

lemma trace_invariant_run:
  "run w d t s schedule = Some s' \<Longrightarrow> trace_invariant w d t s \<Longrightarrow> trace_invariant w d t s'"
proof (induction schedule arbitrary: s)
  case Nil
  then show ?case by simp
next
  case (Cons c cs)
  then show ?case
    by (auto split: option.splits dest: trace_invariant_step)
qed

lemma launch_eq: "launch d t urls = concat (map (\<lambda>url. [WgAdd, Go d url t]) urls)"
  by (induction urls) simp_all

lemma emitted_WgDone:
  assumes inv: "invariant w d t urls s" and k: "k < length (tasks s)"
    and wgd: "WgDone \<in> set (emitted w d t (tasks s ! k))"
  shows "snd (downloadFile w d (fst (tasks s ! k)) t) = Inr ()
     \<and> emitted w d t (tasks s ! k) = fst (downloadFile w d (fst (tasks s ! k)) t)"
proof -
  let ?effs = "fst (downloadFile w d (fst (tasks s ! k)) t)"
  from inv k have fatal: "\<And>e. snd (tasks s ! k) = InFatal e \<Longrightarrow>
      snd (downloadFile w d (fst (tasks s ! k)) t) = Inl e"
    unfolding invariant_def by blast
  show ?thesis
  proof (cases "snd (tasks s ! k)")
    case (Running n)
    with wgd have "WgDone \<in> set (take n ?effs)"
      by (simp add: emitted_def)
    from downloadFile_WgDone_done [OF this] Running show ?thesis
      by (simp add: emitted_def)
  next
    case (InFatal e)
    with wgd have "WgDone \<in> set (take (length ?effs) ?effs)"
      by (simp add: emitted_def)
    from downloadFile_WgDone_done [OF this] fatal [OF InFatal] show ?thesis
      by simp
  next
    case Finished
    with wgd have "WgDone \<in> set (take (length ?effs) ?effs)"
      by (simp add: emitted_def)
    from downloadFile_WgDone_done [OF this] Finished show ?thesis
      by (simp add: emitted_def)
  qed
qed

lemma requests_take: "length (requests (take n effs)) \<le> length (requests effs)"
proof (induction effs arbitrary: n)
  case Nil
  then show ?case by simp
next
  case (Cons e effs)
  show ?case
  proof (cases n)
    case 0
    then show ?thesis by simp
  next
    case (Suc m)
    with Cons [of m] show ?thesis
      by (cases e) simp_all
  qed
qed

lemma emitted_one_request: "length (requests (emitted w d t task)) \<le> 1"
proof -
  have "length (requests (emitted w d t task)) \<le> length (requests (fst (downloadFile w d (fst task) t)))"
    by (cases "snd task") (simp_all add: emitted_def requests_take)
  with downloadFile_one_request [of w d "fst task" t] show ?thesis
    by simp
qed

lemma main_resolve_distinct:
  assumes "main_resolve w = (effs, Inr (d, t, urls))"
  shows "distinct urls"
proof -
  from assms obtain linkType baseURL modelVersion
    where "getURLsForModel linkType baseURL modelVersion = Inr urls"
    by (auto simp: main_resolve_def Let_def case_prod_beta split: if_splits sum.splits)
  from resolved_names_ok [OF this] show ?thesis
    by (simp add: distinct_map)
qed

text \<open>
  C8, as stated, fails. The claim has the entry point wait for all tasks to finish
  before the process exits. In the world below every request fails. \<^verbatim>\<open>main\<close> starts
  the two tasks of \<open>llama-2-7b\<close>. The second task creates its file; the first task
  creates its file, sends its request, enters \<^verbatim>\<open>log.Fatal\<close> and ends the process:
  \<^verbatim>\<open>main\<close> has not reached \<^verbatim>\<open>wg.Wait()\<close>, the counter stands at two, and the second
  task has sent no request.
\<close>

theorem process_exits_before_all_tasks_counterexample:
  "run ((example_world [''download'', ''private'', ''llama-2-7b'', ''out'', ''10.0.0.1'', ''8080'']
           (StatFileInfo True))\<lparr>client_Do := (\<lambda>req. Inl ''connection refused'')\<rparr>)
       ''out'' ''secret''
       (start [''http://10.0.0.1:8080/download/llama-2-7b/consolidated.00.pth'',
               ''http://10.0.0.1:8080/download/llama-2-7b/params.json''])
       [MainStep, MainStep, MainStep, MainStep, TaskStep 1,
        TaskStep 0, TaskStep 0, TaskStep 0, TaskStep 0]
     = Some \<lparr>pc = LoopAdd [], wg = 2,
             tasks = [(''http://10.0.0.1:8080/download/llama-2-7b/consolidated.00.pth'',
                       InFatal (LogFatal ''connection refused'')),
                      (''http://10.0.0.1:8080/download/llama-2-7b/params.json'', Running 1)],
             effects = [(1, CreateFile ''out/params.json''),
                        (0, CreateFile ''out/consolidated.00.pth''),
                        (0, HttpDo \<lparr>Method = ''GET'',
                                   URL = ''http://10.0.0.1:8080/download/llama-2-7b/consolidated.00.pth'',
                                   Header = [(''Authorization'', ''Bearer secret'')]\<rparr>)],
             exited = Some (ExitFatal (LogFatal ''connection refused''))\<rparr>"
  by code_simp

text \<open>
  C8, amended. The entry point starts one task for each resolved URL, in the order of
  the list, and then calls \<^verbatim>\<open>wg.Wait()\<close> once. In every interleaving of \<^verbatim>\<open>main\<close>
  and the tasks, step by step through the effects of each download: the tasks started so
  far are those of a prefix of the list; what a task has done is an initial part of the
  effects of one call of \<^verbatim>\<open>downloadFile\<close> for its URL; a download sends at most one
  request, so a task sends at most one; only URLs of started tasks are fetched, and as
  the resolved URLs are distinct, no URL is fetched twice. When \<^verbatim>\<open>main\<close> has returned
  from the wait, the counter is zero, there is one task for each URL, every task has done
  all the effects of its download, which has succeeded, and the URLs fetched are those of
  the list. The process ends earlier only through a task inside \<^verbatim>\<open>log.Fatal\<close>, whose
  download has failed with the error logged.
\<close>

theorem one_task_per_URL_and_barrier:
  assumes "run w outputDirectory token (start urls) schedule = Some s"
  shows "(\<exists>rest. urls = map fst (tasks s) @ rest)
     \<and> (\<forall>je \<in> set (effects s). fst je < length (tasks s))
     \<and> (\<forall>k < length (tasks s).
           map snd (filter (\<lambda>je. fst je = k) (effects s)) = emitted w outputDirectory token (tasks s ! k))
     \<and> length (requests (map snd (filter (\<lambda>je. fst je = k) (effects s)))) \<le> 1
     \<and> length (requests (fst (downloadFile w outputDirectory url token))) \<le> 1
     \<and> set (fetched (effects s)) \<subseteq> set (map fst (tasks s))
     \<and> (distinct urls \<longrightarrow> distinct (fetched (effects s)))
     \<and> (exited s = Some ExitMain \<longrightarrow>
          pc s = Returned \<and> wg s = 0 \<and> map fst (tasks s) = urls
          \<and> (\<forall>task \<in> set (tasks s).
                emitted w outputDirectory token task = fst (downloadFile w outputDirectory (fst task) token)
                \<and> snd (downloadFile w outputDirectory (fst task) token) = Inr ())
          \<and> set (fetched (effects s)) = set urls)
     \<and> (\<forall>e. exited s = Some (ExitFatal e) \<longrightarrow>
          (\<exists>k < length (tasks s). snd (tasks s ! k) = InFatal e
             \<and> snd (downloadFile w outputDirectory (fst (tasks s ! k)) token) = Inl e))
     \<and> (main_resolve w = (effs, Inr (outputDirectory, token, urls)) \<longrightarrow>
          main w = (effs @ concat (map (\<lambda>url. [WgAdd, Go outputDirectory url token]) urls) @ [WgWait],
                    Inr ())
          \<and> distinct (fetched (effects s)))"
proof -
  let ?d = outputDirectory and ?t = token
  from invariant_run [OF assms invariant_start] have inv: "invariant w ?d ?t urls s" .
  from trace_invariant_run [OF assms trace_invariant_start] have tr: "trace_invariant w ?d ?t s" .
  from inv have prefix: "map fst (tasks s) @ pending (pc s) = urls"
    and counter: "wg s = int (length (filter (\<lambda>task. WgDone \<notin> set (emitted w ?d ?t task)) (tasks s)))
              + (case pc s of LoopGo url rest \<Rightarrow> 1 | _ \<Rightarrow> 0)"
    and returned: "exited s = Some ExitMain \<longrightarrow> pc s = Returned \<and> wg s = 0"
    and fatal: "\<forall>e. exited s = Some (ExitFatal e) \<longrightarrow> (\<exists>k < length (tasks s). snd (tasks s ! k) = InFatal e)"
    and in_fatal: "\<forall>k < length (tasks s). \<forall>e. snd (tasks s ! k) = InFatal e \<longrightarrow>
            snd (downloadFile w ?d (fst (tasks s ! k)) ?t) = Inl e"
    unfolding invariant_def by blast+
  from tr have indices: "\<forall>je \<in> set (effects s). fst je < length (tasks s)"
    and trace: "\<forall>k < length (tasks s).
           map snd (filter (\<lambda>je. fst je = k) (effects s)) = emitted w ?d ?t (tasks s ! k)"
    unfolding trace_invariant_def by blast+
  have once: "length (requests (map snd (filter (\<lambda>je. fst je = k) (effects s)))) \<le> 1"
  proof (cases "k < length (tasks s)")
    case True
    with trace emitted_one_request [of w ?d ?t "tasks s ! k"] show ?thesis
      by simp
  next
    case False
    with indices have "filter (\<lambda>je. fst je = k) (effects s) = []"
      by (auto simp: filter_empty_conv)
    then show ?thesis
      by simp
  qed
  have fetch: "fetch_invariant w ?d ?t s" if "distinct urls"
    using invariants_run [OF assms that invariant_start fetch_invariant_start] by simp
  have started: "set (fetched (effects s)) \<subseteq> set (map fst (tasks s))"
  proof
    fix u
    assume "u \<in> set (fetched (effects s))"
    then obtain req where req: "HttpDo req \<in> set (map snd (effects s))" and u: "u = URL req"
      by (auto simp: fetched_def set_requests)
    then obtain k where je: "(k, HttpDo req) \<in> set (effects s)"
      by auto
    with indices have k: "k < length (tasks s)"
      by auto
    from je have "HttpDo req \<in> set (map snd (filter (\<lambda>je. fst je = k) (effects s)))"
      by force
    with trace k have "HttpDo req \<in> set (emitted w ?d ?t (tasks s ! k))"
      by simp
    then have "HttpDo req \<in> set (fst (downloadFile w ?d (fst (tasks s ! k)) ?t))"
      by (cases "snd (tasks s ! k)") (auto simp: emitted_def dest: in_set_takeD)
    from downloadFile_HttpDo [OF this] u have "u = fst (tasks s ! k)"
      by simp
    with k show "u \<in> set (map fst (tasks s))"
      by (metis length_map nth_map nth_mem)
  qed
  have at_return: "pc s = Returned \<and> wg s = 0 \<and> map fst (tasks s) = urls
      \<and> (\<forall>task \<in> set (tasks s).
            emitted w ?d ?t task = fst (downloadFile w ?d (fst task) ?t)
            \<and> snd (downloadFile w ?d (fst task) ?t) = Inr ())
      \<and> set (fetched (effects s)) = set urls"
    if "exited s = Some ExitMain"
  proof -
    from that returned have pc: "pc s = Returned" and wg: "wg s = 0"
      by simp_all
    with counter have "filter (\<lambda>task. WgDone \<notin> set (emitted w ?d ?t task)) (tasks s) = []"
      by simp
    then have all_done: "\<forall>task \<in> set (tasks s). WgDone \<in> set (emitted w ?d ?t task)"
      by (simp add: filter_empty_conv)
    have fin: "emitted w ?d ?t (tasks s ! k) = fst (downloadFile w ?d (fst (tasks s ! k)) ?t)
        \<and> snd (downloadFile w ?d (fst (tasks s ! k)) ?t) = Inr ()"
      if "k < length (tasks s)" for k
      using emitted_WgDone [OF inv that] all_done that by simp
    then have fin': "\<forall>task \<in> set (tasks s).
            emitted w ?d ?t task = fst (downloadFile w ?d (fst task) ?t)
            \<and> snd (downloadFile w ?d (fst task) ?t) = Inr ()"
      by (metis in_set_conv_nth)
    from prefix pc have all: "map fst (tasks s) = urls"
      by simp
    have "set urls \<subseteq> set (fetched (effects s))"
    proof
      fix u
      assume "u \<in> set urls"
      with all obtain k where k: "k < length (tasks s)" and u: "u = fst (tasks s ! k)"
        by (metis in_set_conv_nth length_map nth_map)
      from fin [OF k] downloadFile_success_request [of w ?d u ?t] u
      obtain req where req: "HttpDo req \<in> set (emitted w ?d ?t (tasks s ! k))"
        by auto
      with fin [OF k] u have "URL req = u"
        using downloadFile_HttpDo [of req w ?d u ?t] by simp
      moreover from req trace k
      have "HttpDo req \<in> set (map snd (filter (\<lambda>je. fst je = k) (effects s)))"
        by simp
      then have "HttpDo req \<in> set (map snd (effects s))"
        by auto
      then have "req \<in> set (requests (map snd (effects s)))"
        by (simp only: set_requests)
      ultimately show "u \<in> set (fetched (effects s))"
        unfolding fetched_def by (metis image_eqI set_map)
    qed
    with started all have "set (fetched (effects s)) = set urls"
      by auto
    with pc wg all fin' show ?thesis
      by simp
  qed
  have at_fatal: "\<exists>k < length (tasks s). snd (tasks s ! k) = InFatal e
             \<and> snd (downloadFile w ?d (fst (tasks s ! k)) ?t) = Inl e"
    if "exited s = Some (ExitFatal e)" for e
    using that fatal in_fatal by blast
  have entry: "main w = (effs @ concat (map (\<lambda>url. [WgAdd, Go ?d url ?t]) urls) @ [WgWait], Inr ())
      \<and> distinct (fetched (effects s))"
    if "main_resolve w = (effs, Inr (?d, ?t, urls))"
    using that fetch [OF main_resolve_distinct [OF that]]
    by (simp add: main_def launch_eq fetch_invariant_def)
  from prefix have "\<exists>rest. urls = map fst (tasks s) @ rest"
    by metis
  moreover from fetch have "distinct urls \<longrightarrow> distinct (fetched (effects s))"
    by (simp add: fetch_invariant_def)
  moreover note indices trace once downloadFile_one_request [of w ?d url ?t] started
  ultimately show ?thesis
    using at_return at_fatal entry by blast
qed

lemma run_example:
  "run (example_world [''download'', ''private'', ''llama-2-7b'', ''out'', ''10.0.0.1'', ''8080'']
          (StatFileInfo True)) ''out'' ''secret''
       (start [''http://10.0.0.1:8080/download/llama-2-7b/consolidated.00.pth'',
               ''http://10.0.0.1:8080/download/llama-2-7b/params.json''])
       [MainStep, MainStep, TaskStep 0, TaskStep 0, MainStep, MainStep, MainStep,
        TaskStep 1, TaskStep 1, TaskStep 1, TaskStep 1, TaskStep 1, TaskStep 1, TaskStep 1, TaskStep 1,
        TaskStep 1, TaskStep 1,
        TaskStep 0, TaskStep 0, TaskStep 0, TaskStep 0, TaskStep 0, TaskStep 0, TaskStep 0,
        MainStep]
     = Some \<lparr>pc = Returned, wg = 0,
             tasks = [(''http://10.0.0.1:8080/download/llama-2-7b/consolidated.00.pth'', Running 9),
                      (''http://10.0.0.1:8080/download/llama-2-7b/params.json'', Finished)],
             effects = [(0, CreateFile ''out/consolidated.00.pth''),
                        (0, HttpDo \<lparr>Method = ''GET'',
                                   URL = ''http://10.0.0.1:8080/download/llama-2-7b/consolidated.00.pth'',
                                   Header = [(''Authorization'', ''Bearer secret'')]\<rparr>),
                        (1, CreateFile ''out/params.json''),
                        (1, HttpDo \<lparr>Method = ''GET'',
                                   URL = ''http://10.0.0.1:8080/download/llama-2-7b/params.json'',
                                   Header = [(''Authorization'', ''Bearer secret'')]\<rparr>),
                        (1, ProgressLine ''params.json'' 2 3),
                        (1, WriteFile ''out/params.json'' [1, 2]),
                        (1, ProgressLine ''params.json'' 3 3),
                        (1, WriteFile ''out/params.json'' [3]),
                        (1, CloseBody), (1, CloseFile ''out/params.json''), (1, WgDone),
                        (0, ProgressLine ''consolidated.00.pth'' 2 3),
                        (0, WriteFile ''out/consolidated.00.pth'' [1, 2]),
                        (0, ProgressLine ''consolidated.00.pth'' 3 3),
                        (0, WriteFile ''out/consolidated.00.pth'' [3]),
                        (0, CloseBody), (0, CloseFile ''out/consolidated.00.pth''), (0, WgDone)],
             exited = Some ExitMain\<rparr>"
  by code_simp

lemma main_resolve_example:
  "main_resolve (example_world [''download'', ''private'', ''llama-2-7b'', ''out'', ''10.0.0.1'', ''8080'']
          (StatFileInfo True))
     = ([StatPath ''out'', Getenv ''AUTH_TOKEN_ENV_VAR'',
         Resolve ''private'' ''http://10.0.0.1:8080/download/'' ''llama-2-7b''],
        Inr (''out'', ''secret'',
             [''http://10.0.0.1:8080/download/llama-2-7b/consolidated.00.pth'',
              ''http://10.0.0.1:8080/download/llama-2-7b/params.json'']))"
  by code_simp

lemma run_example_fatal:
  "run ((example_world [''download'', ''private'', ''llama-2-7b'', ''out'', ''10.0.0.1'', ''8080'']
           (StatFileInfo True))\<lparr>client_Do := (\<lambda>req. Inl ''connection refused'')\<rparr>)
       ''out'' ''secret''
       (start [''http://10.0.0.1:8080/download/llama-2-7b/consolidated.00.pth'',
               ''http://10.0.0.1:8080/download/llama-2-7b/params.json''])
       [MainStep, MainStep, MainStep, MainStep, TaskStep 0, TaskStep 1, TaskStep 0, TaskStep 1,
        TaskStep 1, TaskStep 0, TaskStep 1]
     = Some \<lparr>pc = LoopAdd [], wg = 2,
             tasks = [(''http://10.0.0.1:8080/download/llama-2-7b/consolidated.00.pth'',
                       InFatal (LogFatal ''connection refused'')),
                      (''http://10.0.0.1:8080/download/llama-2-7b/params.json'',
                       InFatal (LogFatal ''connection refused''))],
             effects = [(0, CreateFile ''out/consolidated.00.pth''),
                        (1, CreateFile ''out/params.json''),
                        (0, HttpDo \<lparr>Method = ''GET'',
                                   URL = ''http://10.0.0.1:8080/download/llama-2-7b/consolidated.00.pth'',
                                   Header = [(''Authorization'', ''Bearer secret'')]\<rparr>),
                        (1, HttpDo \<lparr>Method = ''GET'',
                                   URL = ''http://10.0.0.1:8080/download/llama-2-7b/params.json'',
                                   Header = [(''Authorization'', ''Bearer secret'')]\<rparr>)],
             exited = Some (ExitFatal (LogFatal ''connection refused''))\<rparr>"
  by code_simp

lemma downloadFile_example_fatal:
  "snd (downloadFile ((example_world [''download'', ''private'', ''llama-2-7b'', ''out'', ''10.0.0.1'', ''8080'']
           (StatFileInfo True))\<lparr>client_Do := (\<lambda>req. Inl ''connection refused'')\<rparr>)
       ''out'' ''http://10.0.0.1:8080/download/llama-2-7b/params.json'' ''secret'')
   = Inl (LogFatal ''connection refused'')"
  by code_simp

theorem one_task_per_URL_and_barrier_witness:
  "map_option (\<lambda>s. (pc s, wg s, exited s, map fst (tasks s), fetched (effects s)))
     (run (example_world [''download'', ''private'', ''llama-2-7b'', ''out'', ''10.0.0.1'', ''8080'']
          (StatFileInfo True)) ''out'' ''secret''
       (start [''http://10.0.0.1:8080/download/llama-2-7b/consolidated.00.pth'',
               ''http://10.0.0.1:8080/download/llama-2-7b/params.json''])
       [MainStep, MainStep, TaskStep 0, TaskStep 0, MainStep, MainStep, MainStep,
        TaskStep 1, TaskStep 1, TaskStep 1, TaskStep 1, TaskStep 1, TaskStep 1, TaskStep 1, TaskStep 1,
        TaskStep 1, TaskStep 1,
        TaskStep 0, TaskStep 0, TaskStep 0, TaskStep 0, TaskStep 0, TaskStep 0, TaskStep 0,
        MainStep])
     = Some (Returned, 0, Some ExitMain,
             [''http://10.0.0.1:8080/download/llama-2-7b/consolidated.00.pth'',
              ''http://10.0.0.1:8080/download/llama-2-7b/params.json''],
             [''http://10.0.0.1:8080/download/llama-2-7b/consolidated.00.pth'',
              ''http://10.0.0.1:8080/download/llama-2-7b/params.json''])
   \<and> main (example_world [''download'', ''private'', ''llama-2-7b'', ''out'', ''10.0.0.1'', ''8080'']
          (StatFileInfo True))
     = ([StatPath ''out'', Getenv ''AUTH_TOKEN_ENV_VAR'',
         Resolve ''private'' ''http://10.0.0.1:8080/download/'' ''llama-2-7b'',
         WgAdd, Go ''out'' ''http://10.0.0.1:8080/download/llama-2-7b/consolidated.00.pth'' ''secret'',
         WgAdd, Go ''out'' ''http://10.0.0.1:8080/download/llama-2-7b/params.json'' ''secret'',
         WgWait], Inr ())
   \<and> map_option (\<lambda>s. (exited s, map snd (tasks s), fetched (effects s)))
     (run ((example_world [''download'', ''private'', ''llama-2-7b'', ''out'', ''10.0.0.1'', ''8080'']
           (StatFileInfo True))\<lparr>client_Do := (\<lambda>req. Inl ''connection refused'')\<rparr>)
       ''out'' ''secret''
       (start [''http://10.0.0.1:8080/download/llama-2-7b/consolidated.00.pth'',
               ''http://10.0.0.1:8080/download/llama-2-7b/params.json''])
       [MainStep, MainStep, MainStep, MainStep, TaskStep 0, TaskStep 1, TaskStep 0, TaskStep 1,
        TaskStep 1, TaskStep 0, TaskStep 1])
     = Some (Some (ExitFatal (LogFatal ''connection refused'')),
             [InFatal (LogFatal ''connection refused''), InFatal (LogFatal ''connection refused'')],
             [''http://10.0.0.1:8080/download/llama-2-7b/consolidated.00.pth'',
              ''http://10.0.0.1:8080/download/llama-2-7b/params.json''])
   \<and> snd (downloadFile ((example_world [''download'', ''private'', ''llama-2-7b'', ''out'', ''10.0.0.1'', ''8080'']
           (StatFileInfo True))\<lparr>client_Do := (\<lambda>req. Inl ''connection refused'')\<rparr>)
       ''out'' ''http://10.0.0.1:8080/download/llama-2-7b/params.json'' ''secret'')
     = Inl (LogFatal ''connection refused'')"
  using one_task_per_URL_and_barrier [OF run_example,
      where effs = "[StatPath ''out'', Getenv ''AUTH_TOKEN_ENV_VAR'',
         Resolve ''private'' ''http://10.0.0.1:8080/download/'' ''llama-2-7b'']"]
    one_task_per_URL_and_barrier [OF run_example_fatal]
    main_resolve_example
  by (simp only: run_example run_example_fatal downloadFile_example_fatal) (simp add: fetched_def)

end
